theory Spec2Isabelle
  imports Complex_Main "HOL-Library.Multiset"
begin

section \<open>Gaze heatmap renderer: server/api/render-web-page/index.post.ts\<close>

text \<open>
  JavaScript numbers are modelled twice. In the first model they are mathematical
  reals: the arithmetic of \<^verbatim>\<open>createHeatmapOverlay\<close> is exact, without the rounding
  of IEEE doubles and of the \<^verbatim>\<open>Float32Array\<close> store. The second model of the
  accumulation (the definitions whose names end in \<open>_fp\<close>) rounds every operation
  and every store as the code does; it decides the statements about exact sums.
  Image dimensions are natural numbers, loop counters are integers, as
  \<^verbatim>\<open>Math.floor\<close> produces them.
\<close>

subsection \<open>Density accumulation (lines 45 to 68)\<close>

record point =
  point_x :: real
  point_y :: real

definition radius :: real where
  "radius = 30"

definition maxPointsPerPixel :: real where
  "maxPointsPerPixel = 5"

text \<open>Lines 58 to 60: the distance of the point to the pixel \<open>(x, y)\<close>.\<close>

definition distance :: "point \<Rightarrow> int \<Rightarrow> int \<Rightarrow> real" where
  "distance p x y =
     (let dx = point_x p - of_int x;
          dy = point_y p - of_int y
      in sqrt (dx * dx + dy * dy))"

text \<open>Line 62: what a point adds to a pixel at the given distance.\<close>

definition point_intensity :: "real \<Rightarrow> real" where
  "point_intensity d = (1 - d / radius) * (4 / 10)"

text \<open>
  Lines 58 to 65, the body of the inner loop. The index is always inside the
  array here (the loop bounds are clipped to the raster); a typed array ignores
  a write outside its range, as \<open>list_update\<close> does.
\<close>

definition accumulate_pixel :: "point \<Rightarrow> nat \<Rightarrow> int \<Rightarrow> int \<Rightarrow> real list \<Rightarrow> real list" where
  "accumulate_pixel p width y x intensityMap =
     (if distance p x y < radius then
        (let index = nat (y * int width + x)
         in intensityMap[index :=
              min (intensityMap ! index + point_intensity (distance p x y)) maxPointsPerPixel])
      else intensityMap)"

text \<open>Lines 51 to 54: the loop bounds for one point.\<close>

definition x0 :: "point \<Rightarrow> int" where
  "x0 p = max 0 \<lfloor>point_x p - radius\<rfloor>"

definition x1 :: "point \<Rightarrow> nat \<Rightarrow> int" where
  "x1 p width = min (int width) \<lfloor>point_x p + radius\<rfloor>"

definition y0 :: "point \<Rightarrow> int" where
  "y0 p = max 0 \<lfloor>point_y p - radius\<rfloor>"

definition y1 :: "point \<Rightarrow> nat \<Rightarrow> int" where
  "y1 p height = min (int height) \<lfloor>point_y p + radius\<rfloor>"

text \<open>
  Lines 56 to 67: \<^verbatim>\<open>for (y = y0; y < y1; y++) for (x = x0; x < x1; x++)\<close>, the
  counted loops as folds over the integer ranges.
\<close>

definition accumulate_point :: "nat \<Rightarrow> nat \<Rightarrow> point \<Rightarrow> real list \<Rightarrow> real list" where
  "accumulate_point width height p intensityMap =
     fold (\<lambda>y. fold (\<lambda>x. accumulate_pixel p width y x) [x0 p..x1 p width - 1])
       [y0 p..y1 p height - 1] intensityMap"

text \<open>Lines 48 to 68: a zeroed \<^verbatim>\<open>Float32Array\<close>, then \<^verbatim>\<open>points.forEach\<close>.\<close>

definition accumulate :: "point list \<Rightarrow> nat \<Rightarrow> nat \<Rightarrow> real list" where
  "accumulate points width height =
     fold (accumulate_point width height) points (replicate (width * height) 0)"

text \<open>The pixels the loops of a point reach, and what the point adds there.\<close>

definition visited :: "point \<Rightarrow> nat \<Rightarrow> nat \<Rightarrow> nat \<Rightarrow> nat \<Rightarrow> bool" where
  "visited p width height x y =
     (x0 p \<le> int x \<and> int x < x1 p width \<and> y0 p \<le> int y \<and> int y < y1 p height)"

definition contribution :: "point \<Rightarrow> nat \<Rightarrow> nat \<Rightarrow> nat \<Rightarrow> nat \<Rightarrow> real" where
  "contribution p width height x y =
     (if visited p width height x y \<and> distance p (int x) (int y) < radius
      then point_intensity (distance p (int x) (int y)) else 0)"

definition intensity_ok :: "real \<Rightarrow> bool" where
  "intensity_ok v = (0 \<le> v \<and> v \<le> maxPointsPerPixel)"

text \<open>The index of the pixel in row \<open>fst k\<close> and column \<open>snd k\<close> (line 63).\<close>

definition pixel_index :: "nat \<Rightarrow> int \<times> int \<Rightarrow> nat" where
  "pixel_index w k = nat (fst k * int w + snd k)"

subsection \<open>Colour mapping (lines 15 to 35 and 70 to 83)\<close>

text \<open>
  \<^verbatim>\<open>Math.round\<close> rounds to the nearest integer, a tie towards \<open>+\<infinity>\<close>: it is
  \<^term>\<open>round :: real \<Rightarrow> int\<close>, that is \<open>\<lfloor>x + 1/2\<rfloor>\<close>. Lines 20 to 27:
\<close>

definition hue2rgb :: "real \<Rightarrow> real \<Rightarrow> real \<Rightarrow> real" where
  "hue2rgb p q t =
     (let t = (if t < 0 then t + 1 else t);
          t = (if t > 1 then t - 1 else t)
      in if t < 1 / 6 then p + (q - p) * 6 * t
         else if t < 1 / 2 then q
         else if t < 2 / 3 then p + (q - p) * (2 / 3 - t) * 6
         else p)"

definition hslToRgb :: "real \<Rightarrow> real \<Rightarrow> real \<Rightarrow> int \<times> int \<times> int" where
  "hslToRgb h s l =
     (if s = 0 then (round (l * 255), round (l * 255), round (l * 255))
      else
        (let q = (if l < 1 / 2 then l * (1 + s) else l + s - l * s);
             p = 2 * l - q;
             r = hue2rgb p q (h + 1 / 3);
             g = hue2rgb p q h;
             b = hue2rgb p q (h - 1 / 3)
         in (round (r * 255), round (g * 255), round (b * 255))))"

text \<open>
  The image data of a canvas is a \<^verbatim>\<open>Uint8ClampedArray\<close>. A store into it converts
  the number with the operation ToUint8Clamp of ECMAScript: clamp to 0..255, then
  round to the nearest integer, a tie to the even one.
\<close>

definition toUint8Clamp :: "real \<Rightarrow> nat" where
  "toUint8Clamp number =
     (let clamped = min (max number 0) 255;
          f = \<lfloor>clamped\<rfloor>
      in nat (if clamped < of_int f + 1 / 2 then f
              else if clamped > of_int f + 1 / 2 then f + 1
              else if even f then f else f + 1))"

text \<open>
  Lines 74 to 82, the body of the loop for the pixel \<open>i\<close> whose bytes start at
  \<open>j\<close>; the state of the loop is \<open>(j, data)\<close>.
\<close>

definition colorize_step :: "real list \<Rightarrow> nat \<Rightarrow> nat \<times> nat list \<Rightarrow> nat \<times> nat list" where
  "colorize_step intensityMap i st =
     (let j = fst st; data = snd st;
          intensity = min (intensityMap ! i) 1
      in (j + 4,
          if intensity > 0 then
            (let hue = (1 - intensity) * (240 / 360);
                 rgb = hslToRgb hue 1 (1 / 2);
                 r = fst rgb; g = fst (snd rgb); b = snd (snd rgb)
             in data[j := toUint8Clamp (of_int r),
                     j + 1 := toUint8Clamp (of_int g),
                     j + 2 := toUint8Clamp (of_int b),
                     j + 3 := toUint8Clamp (intensity * 180)])
          else data))"

text \<open>
  Lines 70 to 83: \<^verbatim>\<open>createImageData\<close> gives transparent black, four zero bytes
  a pixel; the loop runs over the whole intensity map.
\<close>

definition createImageData :: "nat \<Rightarrow> nat \<Rightarrow> nat list" where
  "createImageData width height = replicate (4 * (width * height)) 0"

definition colorize :: "real list \<Rightarrow> nat list \<Rightarrow> nat list" where
  "colorize intensityMap data =
     snd (fold (colorize_step intensityMap) [0..<length intensityMap] (0, data))"

text \<open>The four bytes the loop leaves for a pixel of intensity \<open>v\<close>.\<close>

definition overlay_pixel :: "real \<Rightarrow> nat list" where
  "overlay_pixel v =
     (let intensity = min v 1
      in if intensity > 0 then
           (let hue = (1 - intensity) * (240 / 360);
                rgb = hslToRgb hue 1 (1 / 2)
            in [toUint8Clamp (of_int (fst rgb)),
                toUint8Clamp (of_int (fst (snd rgb))),
                toUint8Clamp (of_int (snd (snd rgb))),
                toUint8Clamp (intensity * 180)])
         else [0, 0, 0, 0])"

subsection \<open>The canvas (lines 38 to 43 and 85 to 91)\<close>

text \<open>
  The canvas library is not part of the repository. Its operations are modelled
  as the HTML canvas API defines them, on a canvas that stores premultiplied RGBA
  pixels row by row: \<^verbatim>\<open>fillRect\<close> and \<^verbatim>\<open>drawImage\<close> composite with the
  operation of the context, \<^verbatim>\<open>putImageData\<close> replaces the pixels of its
  rectangle whatever the operation is. A PNG buffer and the image decoded from it
  are identified with the raster they hold.
\<close>

type_synonym pixel = "nat \<times> nat \<times> nat \<times> nat"

datatype composite = SourceOver | Lighter

record image =
  image_width :: nat
  image_height :: nat
  image_pixels :: "pixel list"

record imageData =
  data_width :: nat
  data_height :: nat
  data :: "nat list"

record canvas =
  canvas_width :: nat
  canvas_height :: nat
  canvas_pixels :: "pixel list"
  fillStyle :: pixel
  globalCompositeOperation :: composite

definition black :: pixel where
  "black = (0, 0, 0, 255)"

definition transparent :: pixel where
  "transparent = (0, 0, 0, 0)"

definition createCanvas :: "nat \<Rightarrow> nat \<Rightarrow> canvas" where
  "createCanvas width height =
     \<lparr>canvas_width = width, canvas_height = height,
      canvas_pixels = replicate (width * height) transparent,
      fillStyle = black, globalCompositeOperation = SourceOver\<rparr>"

text \<open>
  Compositing of one premultiplied channel of the source, whose alpha is \<open>sa\<close>,
  onto the destination: source-over adds the destination scaled by \<open>1 - sa/255\<close>,
  lighter adds and saturates.
\<close>

definition blend_channel :: "composite \<Rightarrow> nat \<Rightarrow> nat \<Rightarrow> nat \<Rightarrow> nat" where
  "blend_channel operation sa s d =
     (case operation of
        SourceOver \<Rightarrow> s + (d * (255 - sa) + 127) div 255
      | Lighter \<Rightarrow> min 255 (s + d))"

definition blend :: "composite \<Rightarrow> pixel \<Rightarrow> pixel \<Rightarrow> pixel" where
  "blend operation src dst =
     (case src of (sr, sg, sb, sa) \<Rightarrow>
      case dst of (dr, dg, db, da) \<Rightarrow>
        (blend_channel operation sa sr dr, blend_channel operation sa sg dg,
         blend_channel operation sa sb db, blend_channel operation sa sa da))"

definition in_rect :: "nat \<Rightarrow> nat \<Rightarrow> nat \<Rightarrow> nat \<Rightarrow> nat \<Rightarrow> nat \<Rightarrow> bool" where
  "in_rect dx dy w h x y = (dx \<le> x \<and> x < dx + w \<and> dy \<le> y \<and> y < dy + h)"

definition fillRect :: "nat \<Rightarrow> nat \<Rightarrow> nat \<Rightarrow> nat \<Rightarrow> canvas \<Rightarrow> canvas" where
  "fillRect dx dy w h c =
     c\<lparr>canvas_pixels :=
         map (\<lambda>i. if in_rect dx dy w h (i mod canvas_width c) (i div canvas_width c)
                  then blend (globalCompositeOperation c) (fillStyle c) (canvas_pixels c ! i)
                  else canvas_pixels c ! i)
           [0..<length (canvas_pixels c)]\<rparr>"

definition premultiply :: "nat \<Rightarrow> nat \<Rightarrow> nat \<Rightarrow> nat \<Rightarrow> pixel" where
  "premultiply r g b a =
     ((r * a + 127) div 255, (g * a + 127) div 255, (b * a + 127) div 255, a)"

definition data_pixel :: "imageData \<Rightarrow> nat \<Rightarrow> nat \<Rightarrow> pixel" where
  "data_pixel img x y =
     (let j = 4 * (y * data_width img + x)
      in premultiply (data img ! j) (data img ! (j + 1)) (data img ! (j + 2))
           (data img ! (j + 3)))"

definition putImageData :: "imageData \<Rightarrow> nat \<Rightarrow> nat \<Rightarrow> canvas \<Rightarrow> canvas" where
  "putImageData img dx dy c =
     c\<lparr>canvas_pixels :=
         map (\<lambda>i. let x = i mod canvas_width c; y = i div canvas_width c
                  in if in_rect dx dy (data_width img) (data_height img) x y
                     then data_pixel img (x - dx) (y - dy)
                     else canvas_pixels c ! i)
           [0..<length (canvas_pixels c)]\<rparr>"

definition drawImage :: "image \<Rightarrow> nat \<Rightarrow> nat \<Rightarrow> canvas \<Rightarrow> canvas" where
  "drawImage img dx dy c =
     c\<lparr>canvas_pixels :=
         map (\<lambda>i. let x = i mod canvas_width c; y = i div canvas_width c
                  in if in_rect dx dy (image_width img) (image_height img) x y
                     then blend (globalCompositeOperation c)
                            (image_pixels img ! ((y - dy) * image_width img + (x - dx)))
                            (canvas_pixels c ! i)
                     else canvas_pixels c ! i)
           [0..<length (canvas_pixels c)]\<rparr>"

definition toBuffer :: "canvas \<Rightarrow> image" where
  "toBuffer c =
     \<lparr>image_width = canvas_width c, image_height = canvas_height c,
      image_pixels = canvas_pixels c\<rparr>"

subsection \<open>\<^verbatim>\<open>createHeatmapOverlay\<close> (lines 37 to 92)\<close>

definition createHeatmapOverlay :: "point list \<Rightarrow> nat \<Rightarrow> nat \<Rightarrow> image" where
  "createHeatmapOverlay points width height =
     (let canvas = createCanvas width height;
          canvas = canvas\<lparr>fillStyle := black\<rparr>;
          canvas = fillRect 0 0 width height canvas;
          canvas = canvas\<lparr>globalCompositeOperation := Lighter\<rparr>;
          intensityMap = accumulate points width height;
          imageData = \<lparr>data_width = width, data_height = height,
                       data = colorize intensityMap (createImageData width height)\<rparr>;
          canvas = putImageData imageData 0 0 canvas;
          blurredCanvas = createCanvas width height;
          blurredCanvas = drawImage (toBuffer canvas) 0 0 blurredCanvas
      in toBuffer blurredCanvas)"

text \<open>
  The same function without lines 41 to 43 (the black fill and the composite
  operation \<^verbatim>\<open>'lighter'\<close>), to compare with it.
\<close>

definition createHeatmapOverlay_without_setup :: "point list \<Rightarrow> nat \<Rightarrow> nat \<Rightarrow> image" where
  "createHeatmapOverlay_without_setup points width height =
     (let canvas = createCanvas width height;
          intensityMap = accumulate points width height;
          imageData = \<lparr>data_width = width, data_height = height,
                       data = colorize intensityMap (createImageData width height)\<rparr>;
          canvas = putImageData imageData 0 0 canvas;
          blurredCanvas = createCanvas width height;
          blurredCanvas = drawImage (toBuffer canvas) 0 0 blurredCanvas
      in toBuffer blurredCanvas)"

subsection \<open>The request handler (lines 94 to 156)\<close>

text \<open>
  The handler is modelled from line 97 on, for a body that the schema of lines 5 to
  13 has parsed: \<open>req_points\<close> is \<open>None\<close> when the field is absent.
\<close>

record request =
  req_url :: string
  req_width :: real
  req_height :: real
  req_points :: "point list option"

record response =
  screenshot :: image
  fullPage :: bool

text \<open>
  What the handler throws: an error of a call it made, passed on as it is, or the
  error of \<^verbatim>\<open>createError\<close> with its status code and message.
\<close>

datatype error = Thrown string | H3Error nat string

text \<open>
  The browser and the image decoder are outside the repository. A \<open>world\<close> says
  what each awaited call does: it throws (\<open>Inl\<close>, with the message of the error) or
  returns. The page captured depends on the address it was sent to and on the
  viewport it was given; \<^verbatim>\<open>browser.close\<close> is told how often it was called before.
\<close>

record world =
  puppeteer_launch :: "string + unit"
  browser_newPage :: "string + unit"
  page_setViewport :: "real \<Rightarrow> real \<Rightarrow> string + unit"
  page_goto :: "string \<Rightarrow> string + unit"
  page_screenshot :: "string \<Rightarrow> real \<Rightarrow> real \<Rightarrow> string + image"
  loadImage :: "image \<Rightarrow> string + image"
  browser_close :: "nat \<Rightarrow> string + unit"

datatype event =
  Launch | NewPage | SetViewport real real | Goto string | Screenshot | LoadImage | Close

text \<open>
  A step takes the trace of the calls made so far and returns its result with the
  trace extended; a step that throws ends the sequence it is in.
\<close>

type_synonym 'a step = "event list \<Rightarrow> (string + 'a) \<times> event list"

definition call :: "event \<Rightarrow> string + 'a \<Rightarrow> 'a step" where
  "call e r tr = (r, tr @ [e])"

definition returning :: "'a \<Rightarrow> 'a step" where
  "returning v tr = (Inr v, tr)"

definition and_then :: "'a step \<Rightarrow> ('a \<Rightarrow> 'b step) \<Rightarrow> 'b step" where
  "and_then m f tr =
     (case m tr of
        (Inl e, tr') \<Rightarrow> (Inl e, tr')
      | (Inr v, tr') \<Rightarrow> f v tr')"

definition closeBrowser :: "world \<Rightarrow> unit step" where
  "closeBrowser w tr = call Close (browser_close w (count_list tr Close)) tr"

text \<open>
  Line 132: \<^verbatim>\<open>points ? createHeatmapOverlay(points, ...) : null\<close>. An array is
  truthy in JavaScript, the empty one too; only the absent field is not.
\<close>

definition heatmapBuffer :: "point list option \<Rightarrow> nat \<Rightarrow> nat \<Rightarrow> image option" where
  "heatmapBuffer points actualWidth actualHeight =
     (case points of
        None \<Rightarrow> None
      | Some ps \<Rightarrow> Some (createHeatmapOverlay ps actualWidth actualHeight))"

text \<open>Lines 134 to 144, after both images are loaded.\<close>

definition finalScreenshot :: "image \<Rightarrow> image option \<Rightarrow> image" where
  "finalScreenshot screenshotImage heatmapImage =
     (let canvas = createCanvas (image_width screenshotImage) (image_height screenshotImage);
          canvas = drawImage screenshotImage 0 0 canvas;
          canvas = (case heatmapImage of
                      None \<Rightarrow> canvas
                    | Some img \<Rightarrow> drawImage img 0 0 canvas)
      in toBuffer canvas)"

text \<open>Lines 122 to 148, the body of \<^verbatim>\<open>try\<close>.\<close>

definition try_block :: "world \<Rightarrow> request \<Rightarrow> response step" where
  "try_block w req =
     and_then (call NewPage (browser_newPage w)) (\<lambda>_.
     and_then (call (SetViewport (req_width req) 0) (page_setViewport w (req_width req) 0)) (\<lambda>_.
     and_then (call (Goto (req_url req)) (page_goto w (req_url req))) (\<lambda>_.
     and_then (call Screenshot (page_screenshot w (req_url req) (req_width req) 0))
       (\<lambda>screenshotBuffer.
     and_then (call LoadImage (loadImage w screenshotBuffer)) (\<lambda>screenshotImage.
     and_then
       (case heatmapBuffer (req_points req) (image_width screenshotImage)
               (image_height screenshotImage) of
          None \<Rightarrow> returning None
        | Some buffer \<Rightarrow>
            and_then (call LoadImage (loadImage w buffer)) (\<lambda>img. returning (Some img)))
       (\<lambda>heatmapImage.
     and_then (closeBrowser w) (\<lambda>_.
     returning
       \<lparr>screenshot = finalScreenshot screenshotImage heatmapImage, fullPage = True\<rparr>)))))))"

text \<open>
  Lines 97 to 155: the launch is before \<^verbatim>\<open>try\<close>; \<^verbatim>\<open>catch\<close> closes the browser
  and throws the error of \<^verbatim>\<open>createError\<close>. The result comes with the trace of the
  calls made.
\<close>

definition handler :: "world \<Rightarrow> request \<Rightarrow> (error + response) \<times> event list" where
  "handler w req =
     (case puppeteer_launch w of
        Inl e \<Rightarrow> (Inl (Thrown e), [Launch])
      | Inr _ \<Rightarrow>
          (case try_block w req [Launch] of
             (Inr result, tr) \<Rightarrow> (Inr result, tr)
           | (Inl e, tr) \<Rightarrow>
               (case closeBrowser w tr of
                  (Inl e', tr') \<Rightarrow> (Inl (Thrown e'), tr')
                | (Inr _, tr') \<Rightarrow>
                    (Inl (H3Error 500 ''Failed to capture screenshot''), tr'))))"

text \<open>
  Concrete worlds and requests: a page that renders as one opaque white pixel, the
  same with a navigation that times out, and with a browser that does not start.
\<close>

definition white_page :: image where
  "white_page = \<lparr>image_width = 1, image_height = 1, image_pixels = [(255, 255, 255, 255)]\<rparr>"

definition ok_world :: world where
  "ok_world =
     \<lparr>puppeteer_launch = Inr (), browser_newPage = Inr (),
      page_setViewport = (\<lambda>w h. Inr ()), page_goto = (\<lambda>u. Inr ()),
      page_screenshot = (\<lambda>u w h. Inr white_page), loadImage = (\<lambda>b. Inr b),
      browser_close = (\<lambda>n. Inr ())\<rparr>"

definition timeout_world :: world where
  "timeout_world =
     ok_world\<lparr>page_goto := (\<lambda>u. Inl ''Navigation timeout of 30000 ms exceeded'')\<rparr>"

definition no_browser_world :: world where
  "no_browser_world =
     ok_world\<lparr>puppeteer_launch := Inl ''Failed to launch the browser process''\<rparr>"

definition example_request :: request where
  "example_request =
     \<lparr>req_url = ''https://example.test'', req_width = 800, req_height = 600,
      req_points = None\<rparr>"

subsection \<open>The accumulation in the arithmetic of the code (lines 45 to 68)\<close>

text \<open>
  A JavaScript number is an IEEE double: every arithmetic operation returns its
  exact result rounded to 53 significant bits, to the nearest value and a tie to
  the even one, and the literal \<^verbatim>\<open>0.4\<close> is the double nearest to \<open>4/10\<close>. A store
  into the \<^verbatim>\<open>Float32Array\<close> of line 48 rounds the double to 24 significant bits
  in the same way. The range of the exponent is not modelled: no value of these
  lines overflows, and none that reaches the map is subnormal.
\<close>

definition rne :: "real \<Rightarrow> int" where
  "rne x =
     (let f = \<lfloor>x\<rfloor>
      in if x < of_int f + 1 / 2 then f
         else if x > of_int f + 1 / 2 then f + 1
         else if even f then f else f + 1)"

definition round_binary :: "nat \<Rightarrow> real \<Rightarrow> real" where
  "round_binary p x =
     (if x = 0 then 0
      else (let e = \<lfloor>log 2 \<bar>x\<bar>\<rfloor>;
                q = 2 powr of_int (e - int p + 1)
            in of_int (rne (x / q)) * q))"

definition dround :: "real \<Rightarrow> real" where
  "dround = round_binary 53"

definition fround :: "real \<Rightarrow> real" where
  "fround = round_binary 24"

text \<open>Lines 58 to 60 and line 62, one rounding for each operation.\<close>

definition distance_fp :: "point \<Rightarrow> int \<Rightarrow> int \<Rightarrow> real" where
  "distance_fp p x y =
     (let dx = dround (point_x p - of_int x);
          dy = dround (point_y p - of_int y)
      in dround (sqrt (dround (dround (dx * dx) + dround (dy * dy)))))"

definition point_intensity_fp :: "real \<Rightarrow> real" where
  "point_intensity_fp d = dround (dround (1 - dround (d / radius)) * dround (4 / 10))"

text \<open>Lines 58 to 65: the sum is a double, the store rounds it to float32.\<close>

definition accumulate_pixel_fp :: "point \<Rightarrow> nat \<Rightarrow> int \<Rightarrow> int \<Rightarrow> real list \<Rightarrow> real list" where
  "accumulate_pixel_fp p width y x intensityMap =
     (if distance_fp p x y < radius then
        (let index = nat (y * int width + x)
         in intensityMap[index :=
              fround (min (dround (intensityMap ! index + point_intensity_fp (distance_fp p x y)))
                        maxPointsPerPixel)])
      else intensityMap)"

definition x0_fp :: "point \<Rightarrow> int" where
  "x0_fp p = max 0 \<lfloor>dround (point_x p - radius)\<rfloor>"

definition x1_fp :: "point \<Rightarrow> nat \<Rightarrow> int" where
  "x1_fp p width = min (int width) \<lfloor>dround (point_x p + radius)\<rfloor>"

definition y0_fp :: "point \<Rightarrow> int" where
  "y0_fp p = max 0 \<lfloor>dround (point_y p - radius)\<rfloor>"

definition y1_fp :: "point \<Rightarrow> nat \<Rightarrow> int" where
  "y1_fp p height = min (int height) \<lfloor>dround (point_y p + radius)\<rfloor>"

definition accumulate_point_fp :: "nat \<Rightarrow> nat \<Rightarrow> point \<Rightarrow> real list \<Rightarrow> real list" where
  "accumulate_point_fp width height p intensityMap =
     fold (\<lambda>y. fold (\<lambda>x. accumulate_pixel_fp p width y x) [x0_fp p..x1_fp p width - 1])
       [y0_fp p..y1_fp p height - 1] intensityMap"

definition accumulate_fp :: "point list \<Rightarrow> nat \<Rightarrow> nat \<Rightarrow> real list" where
  "accumulate_fp points width height =
     fold (accumulate_point_fp width height) points (replicate (width * height) 0)"

text \<open>
  Whether the loops of a point update a pixel, and the sum of the contributions to
  a pixel in the order of the list, in the same arithmetic, with no clamp.
\<close>

definition reaches_fp :: "point \<Rightarrow> nat \<Rightarrow> nat \<Rightarrow> nat \<Rightarrow> nat \<Rightarrow> bool" where
  "reaches_fp p width height x y =
     (x0_fp p \<le> int x \<and> int x < x1_fp p width \<and> y0_fp p \<le> int y \<and> int y < y1_fp p height \<and>
      distance_fp p (int x) (int y) < radius)"

definition running_sum_fp :: "point list \<Rightarrow> nat \<Rightarrow> nat \<Rightarrow> nat \<Rightarrow> nat \<Rightarrow> real" where
  "running_sum_fp points width height x y =
     fold (\<lambda>p s. if reaches_fp p width height x y
                 then fround (dround (s + point_intensity_fp (distance_fp p (int x) (int y))))
                 else s)
       points 0"


section \<open>Properties of the density accumulation\<close>

subsection \<open>The accumulator, pixel by pixel\<close>

lemma length_accumulate_pixel [simp]:
  "length (accumulate_pixel p w y x m) = length m"
  by (simp add: accumulate_pixel_def Let_def)

lemma length_fold_row [simp]:
  "length (fold (\<lambda>x. accumulate_pixel p w y x) xs m) = length m"
  by (induction xs arbitrary: m) simp_all

lemma length_fold_rows [simp]:
  "length (fold (\<lambda>y. fold (\<lambda>x. accumulate_pixel p w y x) xs) ys m) = length m"
  by (induction ys arbitrary: m) simp_all

lemma length_accumulate_point [simp]:
  "length (accumulate_point w h p m) = length m"
  by (simp add: accumulate_point_def)

lemma length_fold_points [simp]:
  "length (fold (accumulate_point w h) ps m) = length m"
  by (induction ps arbitrary: m) simp_all

lemma length_accumulate [simp]:
  "length (accumulate ps w h) = w * h"
  by (simp add: accumulate_def)

lemma accumulate_pixel_nth:
  "accumulate_pixel p w y x m ! i =
     (if i = nat (y * int w + x) \<and> i < length m \<and> distance p x y < radius
      then min (m ! i + point_intensity (distance p x y)) maxPointsPerPixel
      else m ! i)"
  by (cases "nat (y * int w + x) < length m")
     (auto simp: accumulate_pixel_def Let_def nth_list_update list_update_beyond)

lemma fold_nested_product:
  "fold (\<lambda>y. fold (\<lambda>x. g y x) xs) ys = fold (\<lambda>(y, x). g y x) (List.product ys xs)"
proof (induction ys)
  case Nil
  show ?case by simp
next
  case (Cons y ys)
  have "fold (\<lambda>(y, x). g y x) (map (Pair y) xs) = fold (\<lambda>x. g y x) xs"
    by (simp add: fold_map comp_def)
  with Cons show ?case by (simp add: comp_def)
qed

lemma flat_other:
  "i \<notin> pixel_index w ` set ks \<Longrightarrow>
   fold (\<lambda>(y, x). accumulate_pixel p w y x) ks m ! i = m ! i"
proof (induction ks arbitrary: m)
  case Nil
  show ?case by simp
next
  case (Cons k ks)
  obtain y x where k: "k = (y, x)" by (cases k)
  from Cons.prems have "i \<noteq> nat (y * int w + x)" and "i \<notin> pixel_index w ` set ks"
    by (auto simp: k pixel_index_def)
  then show ?case using Cons.IH by (simp add: k accumulate_pixel_nth)
qed

lemma flat_hit:
  "distinct (map (pixel_index w) ks) \<Longrightarrow> (y, x) \<in> set ks \<Longrightarrow>
   fold (\<lambda>(y, x). accumulate_pixel p w y x) ks m ! nat (y * int w + x) =
   accumulate_pixel p w y x m ! nat (y * int w + x)"
proof (induction ks arbitrary: m)
  case Nil
  then show ?case by simp
next
  case (Cons k ks)
  obtain y' x' where k: "k = (y', x')" by (cases k)
  show ?case
  proof (cases "k = (y, x)")
    case True
    with Cons.prems have "nat (y * int w + x) \<notin> pixel_index w ` set ks"
      by (auto simp: pixel_index_def)
    then show ?thesis using True by (simp add: flat_other)
  next
    case False
    from Cons.prems have d: "distinct (map (pixel_index w) ks)"
      and notin: "pixel_index w k \<notin> pixel_index w ` set ks"
      by simp_all
    from False Cons.prems have mem: "(y, x) \<in> set ks" by simp
    from notin mem have "pixel_index w k \<noteq> pixel_index w (y, x)" by blast
    then have ne: "nat (y' * int w + x') \<noteq> nat (y * int w + x)"
      by (simp add: k pixel_index_def)
    have "fold (\<lambda>(y, x). accumulate_pixel p w y x) (k # ks) m ! nat (y * int w + x) =
          accumulate_pixel p w y x (accumulate_pixel p w y' x' m) ! nat (y * int w + x)"
      using Cons.IH [OF d mem] by (simp add: k)
    also have "\<dots> = accumulate_pixel p w y x m ! nat (y * int w + x)"
      using ne by (simp add: accumulate_pixel_nth)
    finally show ?thesis .
  qed
qed

lemma pixel_index_inj:
  assumes "0 \<le> y" "0 \<le> x" "x < int w" "0 \<le> y'" "0 \<le> x'" "x' < int w"
    and "nat (y * int w + x) = nat (y' * int w + x')"
  shows "y = y' \<and> x = x'"
proof -
  have "0 \<le> y * int w + x" "0 \<le> y' * int w + x'" using assms by simp_all
  with assms have e: "y * int w + x = y' * int w + x'" by linarith
  have "(y * int w + x) div int w = y" "(y' * int w + x') div int w = y'"
    using assms by simp_all
  with e have "y = y'" by simp
  with e show ?thesis by simp
qed

lemma box_distinct:
  assumes "0 \<le> a" "0 \<le> c" "d \<le> int w"
  shows "distinct (map (pixel_index w) (List.product [a..b] [c..d - 1]))"
proof -
  have "inj_on (pixel_index w) (set (List.product [a..b] [c..d - 1]))"
    unfolding inj_on_def
  proof (intro ballI impI)
    fix k k' assume k: "k \<in> set (List.product [a..b] [c..d - 1])"
      and k': "k' \<in> set (List.product [a..b] [c..d - 1])"
      and e: "pixel_index w k = pixel_index w k'"
    from k k' assms have "0 \<le> fst k" "0 \<le> snd k" "snd k < int w"
      "0 \<le> fst k'" "0 \<le> snd k'" "snd k' < int w"
      by auto
    with e have "fst k = fst k' \<and> snd k = snd k'"
      unfolding pixel_index_def by (intro pixel_index_inj) simp_all
    then show "k = k'" by (simp add: prod_eq_iff)
  qed
  moreover have "distinct (List.product [a..b] [c..d - 1])"
    by (simp add: distinct_product)
  ultimately show ?thesis by (simp add: distinct_map)
qed

lemma accumulate_point_nth:
  assumes "x < w" "y < h"
  shows "accumulate_point w h p m ! (y * w + x) =
     (if visited p w h x y \<and> y * w + x < length m \<and> distance p (int x) (int y) < radius
      then min (m ! (y * w + x) + point_intensity (distance p (int x) (int y)))
             maxPointsPerPixel
      else m ! (y * w + x))"
proof -
  let ?ks = "List.product [y0 p..y1 p h - 1] [x0 p..x1 p w - 1]"
  have flat: "accumulate_point w h p m = fold (\<lambda>(y, x). accumulate_pixel p w y x) ?ks m"
    by (simp add: accumulate_point_def fold_nested_product)
  have idx: "nat (int y * int w + int x) = y * w + x"
    by (simp add: nat_add_distrib nat_mult_distrib)
  show ?thesis
  proof (cases "visited p w h x y")
    case True
    then have mem: "(int y, int x) \<in> set ?ks" by (auto simp: visited_def)
    have "distinct (map (pixel_index w) ?ks)"
      by (rule box_distinct) (simp_all add: y0_def x0_def x1_def)
    from flat_hit [OF this mem, of p m] show ?thesis
      using True by (simp add: flat idx accumulate_pixel_nth)
  next
    case False
    have "y * w + x \<notin> pixel_index w ` set ?ks"
    proof
      assume "y * w + x \<in> pixel_index w ` set ?ks"
      then obtain k where k: "k \<in> set ?ks" and e: "y * w + x = pixel_index w k" by auto
      from k have b: "0 \<le> fst k" "0 \<le> snd k" "snd k < int w"
        by (auto simp: y0_def x0_def x1_def)
      from e have "nat (int y * int w + int x) = nat (fst k * int w + snd k)"
        by (simp add: idx pixel_index_def)
      with b assms have "int y = fst k \<and> int x = snd k"
        by (intro pixel_index_inj) simp_all
      with k have "visited p w h x y" by (auto simp: visited_def)
      with False show False by simp
    qed
    then show ?thesis using False by (simp add: flat flat_other)
  qed
qed

lemma radius_pos: "0 < radius"
  by (simp add: radius_def)

lemma pixel_gain_pos:
  "d < radius \<Longrightarrow> 0 < point_intensity d"
  using radius_pos by (simp add: point_intensity_def field_simps)

lemma distance_nonneg: "0 \<le> distance p x y"
  by (simp add: distance_def Let_def)

lemma pixel_gain_le:
  "point_intensity (distance p x y) \<le> 4 / 10"
  using radius_pos distance_nonneg [of p x y] by (simp add: point_intensity_def field_simps)

lemma intensity_ok_min:
  "intensity_ok v \<Longrightarrow> 0 \<le> c \<Longrightarrow> intensity_ok (min (v + c) maxPointsPerPixel)"
  by (simp add: intensity_ok_def maxPointsPerPixel_def)

lemma intensity_ok_accumulate_pixel:
  assumes "list_all intensity_ok m"
  shows "list_all intensity_ok (accumulate_pixel p w y x m)"
proof -
  have "intensity_ok (accumulate_pixel p w y x m ! i)" if "i < length m" for i
  proof -
    from assms that have ok: "intensity_ok (m ! i)" by (simp add: list_all_length)
    show ?thesis
    proof (cases "distance p x y < radius")
      case True
      let ?c = "point_intensity (distance p x y)"
      have "accumulate_pixel p w y x m ! i = min (m ! i + ?c) maxPointsPerPixel \<or>
            accumulate_pixel p w y x m ! i = m ! i"
        unfolding accumulate_pixel_nth by presburger
      moreover have "intensity_ok (min (m ! i + ?c) maxPointsPerPixel)"
        using ok pixel_gain_pos [OF True] by (intro intensity_ok_min) simp_all
      ultimately show ?thesis using ok by presburger
    next
      case False
      with ok show ?thesis by (simp add: accumulate_pixel_nth)
    qed
  qed
  then show ?thesis by (simp add: list_all_length)
qed

lemma intensity_ok_row:
  "list_all intensity_ok m \<Longrightarrow>
   list_all intensity_ok (fold (\<lambda>x. accumulate_pixel p w y x) xs m)"
  by (induction xs arbitrary: m) (simp_all add: intensity_ok_accumulate_pixel)

lemma intensity_ok_rows:
  "list_all intensity_ok m \<Longrightarrow>
   list_all intensity_ok (fold (\<lambda>y. fold (\<lambda>x. accumulate_pixel p w y x) xs) ys m)"
  by (induction ys arbitrary: m) (simp_all add: intensity_ok_row)

lemma intensity_ok_accumulate_point:
  "list_all intensity_ok m \<Longrightarrow> list_all intensity_ok (accumulate_point w h p m)"
  by (simp add: accumulate_point_def intensity_ok_rows)

lemma intensity_ok_fold_points:
  "list_all intensity_ok m \<Longrightarrow> list_all intensity_ok (fold (accumulate_point w h) ps m)"
  by (induction ps arbitrary: m) (simp_all add: intensity_ok_accumulate_point)

lemma intensity_ok_zero: "list_all intensity_ok (replicate n 0)"
  by (simp add: list_all_length intensity_ok_def maxPointsPerPixel_def)

text \<open>
  Claim C2. Whatever the points and the dimensions of the raster, every value of the
  intensity map lies between 0 and the cap 5.0 (\<open>maxPointsPerPixel\<close>): after all the
  points, after every prefix of them (\<open>take k points\<close>), and after each single update
  of a point or of a pixel by a point, from any map that was within the bounds.
\<close>

theorem intensity_within_cap:
  "list_all intensity_ok (accumulate (take k points) width height) \<and>
   (list_all intensity_ok m \<longrightarrow>
      list_all intensity_ok (accumulate_point width height p m) \<and>
      list_all intensity_ok (accumulate_pixel p width y x m))"
  by (simp add: accumulate_def intensity_ok_fold_points intensity_ok_zero
      intensity_ok_accumulate_point intensity_ok_accumulate_pixel)

lemma distance_same_row:
  "point_y p = of_int y \<Longrightarrow> distance p x y = \<bar>point_x p - of_int x\<bar>"
  by (simp add: distance_def Let_def)

text \<open>
  The bounds at a concrete input: a pixel already at 4.8 is capped at 5 by one more
  point on it.
\<close>

theorem intensity_within_cap_witness:
  "list_all intensity_ok [24 / 5] \<and>
   list_all intensity_ok (accumulate_point 1 1 \<lparr>point_x = 0, point_y = 0\<rparr> [24 / 5]) \<and>
   accumulate_pixel \<lparr>point_x = 0, point_y = 0\<rparr> 1 0 0 [24 / 5] = [5] \<and>
   list_all intensity_ok (accumulate_pixel \<lparr>point_x = 0, point_y = 0\<rparr> 1 0 0 [24 / 5]) \<and>
   list_all intensity_ok
     (accumulate (take 1 [\<lparr>point_x = 0, point_y = 0\<rparr>, \<lparr>point_x = 0, point_y = 0\<rparr>]) 1 1)"
  using intensity_within_cap [of 1 "[\<lparr>point_x = 0, point_y = 0\<rparr>, \<lparr>point_x = 0, point_y = 0\<rparr>]"
      1 1 "[24 / 5]" "\<lparr>point_x = 0, point_y = 0\<rparr>" 0 0]
  by (simp add: intensity_ok_def maxPointsPerPixel_def accumulate_pixel_def distance_same_row
      radius_def point_intensity_def)

lemma contribution_nonneg: "0 \<le> contribution p w h x y"
  using pixel_gain_pos [of "distance p (int x) (int y)"]
  by (simp add: contribution_def less_imp_le)

lemma contribution_le: "contribution p w h x y \<le> 4 / 10"
  using pixel_gain_le [of p "int x" "int y"] by (simp add: contribution_def)

lemma pixel_index_less: "x < w \<Longrightarrow> y < h \<Longrightarrow> y * w + x < w * (h::nat)"
proof -
  assume "x < w" "y < h"
  then have "y * w + x < Suc y * w" and "Suc y \<le> h" by simp_all
  moreover from this(2) have "Suc y * w \<le> h * w" by (rule mult_le_mono1)
  ultimately show ?thesis by (simp add: mult.commute)
qed

lemma accumulate_point_contribution:
  assumes "x < w" "y < h" "length m = w * h"
  shows "accumulate_point w h p m ! (y * w + x) =
     (if contribution p w h x y = 0 then m ! (y * w + x)
      else min (m ! (y * w + x) + contribution p w h x y) maxPointsPerPixel)"
proof -
  from assms have "y * w + x < length m" by (simp add: pixel_index_less)
  show ?thesis
  proof (cases "visited p w h x y \<and> distance p (int x) (int y) < radius")
    case True
    then have "contribution p w h x y = point_intensity (distance p (int x) (int y))"
      by (simp add: contribution_def)
    moreover from True have "0 < point_intensity (distance p (int x) (int y))"
      by (intro pixel_gain_pos) simp
    ultimately show ?thesis
      using True \<open>y * w + x < length m\<close>
      unfolding accumulate_point_nth [OF assms(1,2)] by simp
  next
    case False
    then have "contribution p w h x y = 0" by (auto simp: contribution_def)
    then show ?thesis
      using False unfolding accumulate_point_nth [OF assms(1,2)] by auto
  qed
qed

lemma fold_points_nth:
  assumes "x < w" "y < h"
  shows "length m = w * h \<Longrightarrow> intensity_ok (m ! (y * w + x)) \<Longrightarrow>
     fold (accumulate_point w h) ps m ! (y * w + x) =
     min (m ! (y * w + x) + (\<Sum>p\<leftarrow>ps. contribution p w h x y)) maxPointsPerPixel"
proof (induction ps arbitrary: m)
  case Nil
  then show ?case by (simp add: intensity_ok_def)
next
  case (Cons p ps)
  let ?i = "y * w + x"
  let ?c = "contribution p w h x y"
  let ?s = "\<Sum>p\<leftarrow>ps. contribution p w h x y"
  let ?m' = "accumulate_point w h p m"
  have s: "0 \<le> ?s" by (intro sum_list_nonneg) (auto simp: contribution_nonneg)
  have c: "0 \<le> ?c" by (rule contribution_nonneg)
  from Cons.prems have v: "0 \<le> m ! ?i" "m ! ?i \<le> maxPointsPerPixel"
    by (simp_all add: intensity_ok_def)
  have m': "?m' ! ?i = min (m ! ?i + ?c) maxPointsPerPixel"
    using v by (simp add: accumulate_point_contribution [OF assms Cons.prems(1)])
  then have "intensity_ok (?m' ! ?i)"
    using v c by (simp add: intensity_ok_def)
  with Cons.IH [of ?m'] Cons.prems(1)
  have "fold (accumulate_point w h) ps ?m' ! ?i = min (?m' ! ?i + ?s) maxPointsPerPixel"
    by simp
  also have "\<dots> = min (m ! ?i + (?c + ?s)) maxPointsPerPixel"
    unfolding m' using s by (simp add: min_def)
  finally show ?case by simp
qed

lemma accumulate_nth:
  assumes "x < w" "y < h"
  shows "accumulate ps w h ! (y * w + x) =
     min (\<Sum>p\<leftarrow>ps. contribution p w h x y) maxPointsPerPixel"
proof -
  from assms have "replicate (w * h) (0::real) ! (y * w + x) = 0"
    by (simp add: pixel_index_less)
  then show ?thesis
    unfolding accumulate_def
    by (simp add: fold_points_nth [OF assms] intensity_ok_def maxPointsPerPixel_def)
qed

lemma accumulate_single:
  assumes "x < w" "y < h"
  shows "accumulate [p] w h ! (y * w + x) = contribution p w h x y"
  using contribution_le [of p w h x y]
  by (simp add: accumulate_nth [OF assms] maxPointsPerPixel_def)

lemma accumulate_mset:
  assumes "mset ps = mset qs"
  shows "accumulate ps w h = accumulate qs w h"
proof (rule nth_equalityI)
  show "length (accumulate ps w h) = length (accumulate qs w h)" by simp
next
  fix i assume "i < length (accumulate ps w h)"
  then have i: "i < w * h" by simp
  then have w: "0 < w" by (cases w) simp_all
  define x where "x = i mod w"
  define y where "y = i div w"
  have x: "x < w" using w by (simp add: x_def)
  have y: "y < h" using i w by (simp add: y_def less_mult_imp_div_less mult.commute)
  have e: "i = y * w + x" by (simp add: x_def y_def)
  have "(\<Sum>p\<leftarrow>ps. contribution p w h x y) = (\<Sum>p\<leftarrow>qs. contribution p w h x y)"
    using arg_cong [OF assms, of "\<lambda>M. sum_mset (image_mset (\<lambda>p. contribution p w h x y) M)"]
    by (simp add: sum_mset_sum_list [symmetric])
  then show "accumulate ps w h ! i = accumulate qs w h ! i"
    by (simp add: e accumulate_nth [OF x y])
qed

lemma contribution_at_centre:
  assumes "x < w" "y < h"
  shows "contribution \<lparr>point_x = real x, point_y = real y\<rparr> w h x y = 4 / 10"
proof -
  have "distance \<lparr>point_x = real x, point_y = real y\<rparr> (int x) (int y) = 0"
    by (simp add: distance_def)
  moreover have "visited \<lparr>point_x = real x, point_y = real y\<rparr> w h x y"
    using assms by (simp add: visited_def x0_def x1_def y0_def y1_def radius_def)
  ultimately show ?thesis by (simp add: contribution_def radius_def point_intensity_def)
qed

text \<open>
  In exact arithmetic, at every pixel of the raster the accumulated intensity is
  the sum of what each point contributes when accumulated alone, clamped once at
  5.0; the result is then the same for every order of the points, and \<open>n \<le> 12\<close>
  points stacked on a pixel give exactly \<open>n * 0.4\<close> there. The arithmetic of the
  code, with its roundings, is treated in the last section.
\<close>

theorem stacked_points_sum_then_clamp:
  "x < width \<and> y < height \<longrightarrow>
     accumulate points width height ! (y * width + x) =
       min (\<Sum>p\<leftarrow>points. accumulate [p] width height ! (y * width + x)) maxPointsPerPixel \<and>
     (mset points' = mset points \<longrightarrow>
        accumulate points' width height = accumulate points width height) \<and>
     (n \<le> 12 \<longrightarrow>
        accumulate (replicate n \<lparr>point_x = real x, point_y = real y\<rparr>) width height
          ! (y * width + x) = real n * (4 / 10))"
proof (intro impI conjI)
  assume a: "x < width \<and> y < height"
  then have xy: "x < width" "y < height" by simp_all
  show "accumulate points width height ! (y * width + x) =
       min (\<Sum>p\<leftarrow>points. accumulate [p] width height ! (y * width + x)) maxPointsPerPixel"
  proof -
    have "(\<Sum>p\<leftarrow>points. accumulate [p] width height ! (y * width + x)) =
          (\<Sum>p\<leftarrow>points. contribution p width height x y)"
      by (simp only: accumulate_single [OF xy])
    then show ?thesis by (simp only: accumulate_nth [OF xy])
  qed
  show "accumulate points' width height = accumulate points width height"
    if "mset points' = mset points"
    using that by (rule accumulate_mset)
  show "accumulate (replicate n \<lparr>point_x = real x, point_y = real y\<rparr>) width height
          ! (y * width + x) = real n * (4 / 10)" if "n \<le> 12"
  proof -
    have "(\<Sum>p\<leftarrow>replicate n \<lparr>point_x = real x, point_y = real y\<rparr>.
            contribution p width height x y) = real n * (4 / 10)"
      by (simp add: sum_list_replicate contribution_at_centre [OF xy] map_replicate_const)
    moreover from that have "real n * (4 / 10) \<le> 5" by simp
    ultimately show ?thesis by (simp add: accumulate_nth [OF xy] maxPointsPerPixel_def)
  qed
qed

text \<open>
  Claim C1. The loops of a point run over \<open>x0 \<le> x < x1\<close> with
  \<open>x1 = min width \<lfloor>point_x + 30\<rfloor>\<close>: when the coordinate has a fractional part, the
  column \<open>\<lfloor>point_x + 30\<rfloor>\<close> is closer than 30 to the point and is not visited (the
  same holds for the rows). For the point \<open>(0.5, 0)\<close> on a raster of 31 by 1 the pixel
  \<open>(30, 0)\<close> is at distance 29.5, the claimed contribution is \<open>1/150\<close>, and the map
  holds 0 there. The point \<open>(-0.5, 0)\<close>, outside a raster of 30 by 1, does not reach
  the pixel \<open>(29, 0)\<close> at distance 29.5 either.
\<close>

theorem fractional_point_misses_last_column:
  "distance \<lparr>point_x = 1 / 2, point_y = 0\<rparr> 30 0 < radius \<and>
   point_intensity (distance \<lparr>point_x = 1 / 2, point_y = 0\<rparr> 30 0) = 1 / 150 \<and>
   accumulate [\<lparr>point_x = 1 / 2, point_y = 0\<rparr>] 31 1 ! 30 = 0 \<and>
   distance \<lparr>point_x = - 1 / 2, point_y = 0\<rparr> 29 0 < radius \<and>
   accumulate [\<lparr>point_x = - 1 / 2, point_y = 0\<rparr>] 30 1 ! 29 = 0"
proof -
  have "accumulate [\<lparr>point_x = 1 / 2, point_y = 0\<rparr>] 31 1 ! (0 * 31 + 30) = 0"
    by (subst accumulate_single) (simp_all add: contribution_def visited_def x1_def radius_def)
  moreover have "accumulate [\<lparr>point_x = - 1 / 2, point_y = 0\<rparr>] 30 1 ! (0 * 30 + 29) = 0"
    by (subst accumulate_single) (simp_all add: contribution_def visited_def x1_def radius_def)
  ultimately show ?thesis
    by (simp add: distance_same_row radius_def point_intensity_def)
qed

text \<open>
  Claim C7. For the single point \<open>(30.5, 0)\<close> on a raster of 61 by 1 the pixels
  \<open>(60, 0)\<close> and \<open>(1, 0)\<close> are both at distance 29.5, and the pixel \<open>(0, 0)\<close> is at
  distance 30.5. The pixel \<open>(60, 0)\<close> is in the column the loop does not visit: its
  intensity is 0, as at distance 30.5, while the pixel \<open>(1, 0)\<close> holds \<open>1/150\<close>. The
  intensity is then not a strictly decreasing function of the distance within the
  radius.
\<close>

theorem equidistant_pixels_differ:
  "distance \<lparr>point_x = 61 / 2, point_y = 0\<rparr> 60 0 = 59 / 2 \<and>
   distance \<lparr>point_x = 61 / 2, point_y = 0\<rparr> 1 0 = 59 / 2 \<and>
   distance \<lparr>point_x = 61 / 2, point_y = 0\<rparr> 0 0 = 61 / 2 \<and>
   accumulate [\<lparr>point_x = 61 / 2, point_y = 0\<rparr>] 61 1 ! 60 = 0 \<and>
   accumulate [\<lparr>point_x = 61 / 2, point_y = 0\<rparr>] 61 1 ! 1 = 1 / 150 \<and>
   accumulate [\<lparr>point_x = 61 / 2, point_y = 0\<rparr>] 61 1 ! 0 = 0"
proof -
  let ?p = "\<lparr>point_x = 61 / 2, point_y = 0\<rparr>"
  have d: "distance ?p 60 0 = 59 / 2" "distance ?p 1 0 = 59 / 2" "distance ?p 0 0 = 61 / 2"
    by (simp_all add: distance_same_row)
  have "accumulate [?p] 61 1 ! (0 * 61 + 60) = 0"
    by (subst accumulate_single) (simp_all add: contribution_def visited_def x1_def radius_def)
  moreover have "accumulate [?p] 61 1 ! (0 * 61 + 1) = 1 / 150"
    using d(2)
    by (subst accumulate_single)
      (simp_all add: contribution_def visited_def x0_def x1_def y0_def y1_def radius_def
        point_intensity_def)
  moreover have "accumulate [?p] 61 1 ! (0 * 61 + 0) = 0"
    using d(3) by (subst accumulate_single) (simp_all add: contribution_def radius_def)
  ultimately show ?thesis using d by simp
qed

text \<open>
  Two points on the only pixel of a raster of one pixel, two points in both orders,
  and twelve stacked points, which give 4.8.
\<close>

theorem stacked_points_sum_then_clamp_witness:
  "(0::nat) < 1 \<and> (0::nat) < 1 \<and>
   accumulate [\<lparr>point_x = 0, point_y = 0\<rparr>, \<lparr>point_x = 0, point_y = 0\<rparr>] 1 1 ! 0 =
     min (\<Sum>p\<leftarrow>[\<lparr>point_x = 0, point_y = 0\<rparr>, \<lparr>point_x = 0, point_y = 0\<rparr>].
            accumulate [p] 1 1 ! 0) maxPointsPerPixel \<and>
   mset [\<lparr>point_x = 1 / 2, point_y = 0\<rparr>, \<lparr>point_x = 0, point_y = 0\<rparr>] =
     mset [\<lparr>point_x = 0, point_y = 0\<rparr>, \<lparr>point_x = 1 / 2, point_y = 0\<rparr>] \<and>
   accumulate [\<lparr>point_x = 1 / 2, point_y = 0\<rparr>, \<lparr>point_x = 0, point_y = 0\<rparr>] 1 1 =
     accumulate [\<lparr>point_x = 0, point_y = 0\<rparr>, \<lparr>point_x = 1 / 2, point_y = 0\<rparr>] 1 1 \<and>
   (12::nat) \<le> 12 \<and>
   accumulate (replicate 12 \<lparr>point_x = 0, point_y = 0\<rparr>) 1 1 ! 0 = 24 / 5"
proof -
  note t = stacked_points_sum_then_clamp [of 0 1 0 1]
  have "accumulate [\<lparr>point_x = 0, point_y = 0\<rparr>, \<lparr>point_x = 0, point_y = 0\<rparr>] 1 1 ! 0 =
     min (\<Sum>p\<leftarrow>[\<lparr>point_x = 0, point_y = 0\<rparr>, \<lparr>point_x = 0, point_y = 0\<rparr>].
            accumulate [p] 1 1 ! 0) maxPointsPerPixel"
    using t [of "[\<lparr>point_x = 0, point_y = 0\<rparr>, \<lparr>point_x = 0, point_y = 0\<rparr>]" "[]" 0] by simp
  moreover have
    "accumulate [\<lparr>point_x = 1 / 2, point_y = 0\<rparr>, \<lparr>point_x = 0, point_y = 0\<rparr>] 1 1 =
     accumulate [\<lparr>point_x = 0, point_y = 0\<rparr>, \<lparr>point_x = 1 / 2, point_y = 0\<rparr>] 1 1"
    using t [of "[\<lparr>point_x = 0, point_y = 0\<rparr>, \<lparr>point_x = 1 / 2, point_y = 0\<rparr>]"
        "[\<lparr>point_x = 1 / 2, point_y = 0\<rparr>, \<lparr>point_x = 0, point_y = 0\<rparr>]" 0] by simp
  moreover have "accumulate (replicate 12 \<lparr>point_x = 0, point_y = 0\<rparr>) 1 1 ! 0 = 24 / 5"
    using t [of "[]" "[]" 12] by simp
  ultimately show ?thesis by simp
qed

section \<open>Properties of the colour mapping\<close>

lemma fst_colorize_step [simp]: "fst (colorize_step m i st) = fst st + 4"
  by (simp add: colorize_step_def Let_def)

lemma length_colorize_step [simp]: "length (snd (colorize_step m i st)) = length (snd st)"
  by (simp add: colorize_step_def Let_def)

lemma length_overlay_pixel [simp]: "length (overlay_pixel v) = 4"
  by (simp add: overlay_pixel_def Let_def)

lemma colorize_step_nth:
  "snd (colorize_step m i (j, d)) ! k =
     (if j \<le> k \<and> k < j + 4 \<and> k < length d \<and> 0 < min (m ! i) 1
      then overlay_pixel (m ! i) ! (k - j) else d ! k)"
proof (cases "0 < min (m ! i) 1")
  case False
  then show ?thesis by (simp add: colorize_step_def Let_def)
next
  case True
  consider "k < j" | "k = j" | "k = j + 1" | "k = j + 2" | "k = j + 3" | "j + 4 \<le> k"
    by linarith
  then show ?thesis
  proof cases
    case 1
    with True show ?thesis by (simp add: colorize_step_def Let_def)
  next
    case 2
    with True show ?thesis
      by (cases "k < length d")
        (simp_all add: colorize_step_def overlay_pixel_def Let_def list_update_beyond)
  next
    case 3
    with True show ?thesis
      by (cases "k < length d")
        (simp_all add: colorize_step_def overlay_pixel_def Let_def list_update_beyond)
  next
    case 4
    with True show ?thesis
      by (cases "k < length d")
        (simp_all add: colorize_step_def overlay_pixel_def Let_def list_update_beyond)
  next
    case 5
    with True show ?thesis
      by (cases "k < length d")
        (simp_all add: colorize_step_def overlay_pixel_def Let_def list_update_beyond
          numeral_3_eq_3)
  next
    case 6
    with True show ?thesis by (simp add: colorize_step_def Let_def)
  qed
qed

lemma fold_colorize:
  assumes "length d = 4 * length m"
  shows "n \<le> length m \<Longrightarrow>
     fst (fold (colorize_step m) [0..<n] (0, d)) = 4 * n \<and>
     length (snd (fold (colorize_step m) [0..<n] (0, d))) = length d \<and>
     (\<forall>k. snd (fold (colorize_step m) [0..<n] (0, d)) ! k =
        (if k < 4 * n \<and> 0 < min (m ! (k div 4)) 1
         then overlay_pixel (m ! (k div 4)) ! (k mod 4) else d ! k))"
proof (induction n)
  case 0
  show ?case by simp
next
  case (Suc n)
  let ?st = "fold (colorize_step m) [0..<n] (0, d)"
  from Suc have j: "fst ?st = 4 * n" and len: "length (snd ?st) = length d"
    and nth: "\<And>k. snd ?st ! k =
        (if k < 4 * n \<and> 0 < min (m ! (k div 4)) 1
         then overlay_pixel (m ! (k div 4)) ! (k mod 4) else d ! k)"
    by simp_all
  have st: "?st = (4 * n, snd ?st)" using j by (simp add: prod_eq_iff)
  have fold: "fold (colorize_step m) [0..<Suc n] (0, d) = colorize_step m n (4 * n, snd ?st)"
    using st by simp
  have "snd (colorize_step m n (4 * n, snd ?st)) ! k =
        (if k < 4 * Suc n \<and> 0 < min (m ! (k div 4)) 1
         then overlay_pixel (m ! (k div 4)) ! (k mod 4) else d ! k)" for k
  proof (cases "4 * n \<le> k \<and> k < 4 * n + 4")
    case True
    then have dm: "k div 4 = n" "k mod 4 = k - 4 * n" by presburger+
    from True Suc.prems assms have "k < length d" by simp
    with True show ?thesis
      unfolding colorize_step_nth by (simp add: dm len nth)
  next
    case False
    then show ?thesis
      unfolding colorize_step_nth by (auto simp: nth)
  qed
  then show ?case unfolding fold by (simp add: len)
qed

lemma length_colorize [simp]:
  "length d = 4 * length m \<Longrightarrow> length (colorize m d) = length d"
  using fold_colorize [of d m "length m"] by (simp add: colorize_def)

lemma colorize_nth:
  assumes "i < length m" "c < 4" "w * h = length m"
  shows "colorize m (createImageData w h) ! (4 * i + c) = overlay_pixel (m ! i) ! c"
proof -
  have len: "length (createImageData w h) = 4 * length m"
    using assms by (simp add: createImageData_def)
  have k: "(4 * i + c) div 4 = i" "(4 * i + c) mod 4 = c" "4 * i + c < 4 * length m"
    using assms by simp_all
  have z: "overlay_pixel (m ! i) ! c = 0" if "\<not> 0 < min (m ! i) 1"
    using that assms(2) by (simp add: overlay_pixel_def Let_def nth_Cons')
  from fold_colorize [OF len, of "length m"]
  have "colorize m (createImageData w h) ! (4 * i + c) =
        (if 0 < min (m ! i) 1 then overlay_pixel (m ! i) ! c
         else createImageData w h ! (4 * i + c))"
    using k by (simp add: colorize_def)
  also have "\<dots> = overlay_pixel (m ! i) ! c"
    using z k assms(3) by (simp add: createImageData_def)
  finally show ?thesis .
qed

lemma colorize_pixel:
  assumes "i < length m" "w * h = length m"
  shows "take 4 (drop (4 * i) (colorize m (createImageData w h))) = overlay_pixel (m ! i)"
proof (rule nth_equalityI)
  have "length (createImageData w h) = 4 * length m"
    using assms by (simp add: createImageData_def)
  then show "length (take 4 (drop (4 * i) (colorize m (createImageData w h)))) =
        length (overlay_pixel (m ! i))"
    using assms by simp
next
  fix c assume "c < length (take 4 (drop (4 * i) (colorize m (createImageData w h))))"
  then have c: "c < 4" by simp
  have "length (createImageData w h) = 4 * length m"
    using assms by (simp add: createImageData_def)
  then have "4 * i + c < length (colorize m (createImageData w h))"
    using assms c by simp
  then show "take 4 (drop (4 * i) (colorize m (createImageData w h))) ! c =
        overlay_pixel (m ! i) ! c"
    using c by (simp add: colorize_nth [OF assms(1) c assms(2)])
qed

lemma toUint8Clamp_cases:
  assumes "0 \<le> x" "x \<le> 255"
  obtains "x < of_int \<lfloor>x\<rfloor> + 1 / 2" "toUint8Clamp x = nat \<lfloor>x\<rfloor>"
  | "x > of_int \<lfloor>x\<rfloor> + 1 / 2" "toUint8Clamp x = nat (\<lfloor>x\<rfloor> + 1)"
  | "x = of_int \<lfloor>x\<rfloor> + 1 / 2" "even \<lfloor>x\<rfloor>" "toUint8Clamp x = nat \<lfloor>x\<rfloor>"
  | "x = of_int \<lfloor>x\<rfloor> + 1 / 2" "odd \<lfloor>x\<rfloor>" "toUint8Clamp x = nat (\<lfloor>x\<rfloor> + 1)"
proof -
  from assms have c: "min (max x 0) 255 = x" by simp
  show ?thesis
    using that unfolding toUint8Clamp_def Let_def c
    by (cases "x < of_int \<lfloor>x\<rfloor> + 1 / 2"; cases "x > of_int \<lfloor>x\<rfloor> + 1 / 2";
        cases "even \<lfloor>x\<rfloor>") (simp_all del: of_int_add)
qed

lemma toUint8Clamp_nonpos: "x \<le> 0 \<Longrightarrow> toUint8Clamp x = 0"
  by (simp add: toUint8Clamp_def Let_def max_def)

lemma toUint8Clamp_near:
  assumes "0 \<le> x" "x \<le> 255"
  shows "\<bar>real (toUint8Clamp x) - x\<bar> \<le> 1 / 2"
proof -
  have f: "0 \<le> \<lfloor>x\<rfloor>" using assms by simp
  have b: "of_int \<lfloor>x\<rfloor> \<le> x" "x < of_int \<lfloor>x\<rfloor> + 1" by linarith+
  from assms show ?thesis
  proof (cases rule: toUint8Clamp_cases)
    case 1 with f b show ?thesis by simp
  next
    case 2 with f b show ?thesis by simp
  next
    case 3 with f b show ?thesis by simp
  next
    case 4 with f b show ?thesis by simp
  qed
qed

lemma toUint8Clamp_round:
  assumes "0 \<le> x" "x \<le> 255" "frac x \<noteq> 1 / 2"
  shows "int (toUint8Clamp x) = round x"
proof -
  have f: "0 \<le> \<lfloor>x\<rfloor>" using assms by simp
  have b: "of_int \<lfloor>x\<rfloor> \<le> x" "x < of_int \<lfloor>x\<rfloor> + 1" by linarith+
  from assms(3) have ne: "x \<noteq> of_int \<lfloor>x\<rfloor> + 1 / 2" by (simp add: frac_def)
  from assms(1,2) show ?thesis
  proof (cases rule: toUint8Clamp_cases)
    case 1
    with b have "of_int \<lfloor>x\<rfloor> \<le> x + 1 / 2" "x + 1 / 2 < of_int \<lfloor>x\<rfloor> + 1" by linarith+
    then have "round x = \<lfloor>x\<rfloor>" unfolding round_def by (rule floor_unique)
    with 1 f show ?thesis by simp
  next
    case 2
    with b have "real_of_int \<lfloor>x\<rfloor> + 1 \<le> x + 1 / 2" "x + 1 / 2 < real_of_int \<lfloor>x\<rfloor> + 1 + 1"
      by linarith+
    then have "of_int (\<lfloor>x\<rfloor> + 1) \<le> x + 1 / 2" "x + 1 / 2 < of_int (\<lfloor>x\<rfloor> + 1) + 1"
      by simp_all
    then have "round x = \<lfloor>x\<rfloor> + 1" unfolding round_def by (rule floor_unique)
    with 2 f show ?thesis by simp
  next
    case 3 with ne show ?thesis by simp
  next
    case 4 with ne show ?thesis by simp
  qed
qed

lemma toUint8Clamp_le_180:
  assumes "0 \<le> x" "x \<le> 180"
  shows "toUint8Clamp x \<le> 180"
proof -
  from assms have "\<bar>real (toUint8Clamp x) - x\<bar> \<le> 1 / 2" by (intro toUint8Clamp_near) simp_all
  with assms have "real (toUint8Clamp x) < 181" by linarith
  then show ?thesis by simp
qed

lemma hue2rgb_red: "hue2rgb 0 1 (1 / 3) = 1"
  and hue2rgb_green: "hue2rgb 0 1 0 = 0"
  and hue2rgb_blue: "hue2rgb 0 1 (- (1 / 3)) = 0"
  by (simp_all add: hue2rgb_def Let_def)

lemma hslToRgb_red: "hslToRgb 0 1 (1 / 2) = (255, 0, 0)"
  by (simp add: hslToRgb_def Let_def hue2rgb_red hue2rgb_green hue2rgb_blue)

lemma toUint8Clamp_int: "toUint8Clamp 255 = 255" "toUint8Clamp 0 = 0" "toUint8Clamp 180 = 180"
  by (simp_all add: toUint8Clamp_def Let_def)

lemma overlay_pixel_zero: "min v 1 \<le> 0 \<Longrightarrow> overlay_pixel v = [0, 0, 0, 0]"
  by (simp add: overlay_pixel_def Let_def min_le_iff_disj)

lemma overlay_pixel_one: "min v 1 = 1 \<Longrightarrow> overlay_pixel v = [255, 0, 0, 180]"
  by (simp add: overlay_pixel_def Let_def hslToRgb_red toUint8Clamp_int)

lemma overlay_pixel_alpha: "overlay_pixel v ! 3 = toUint8Clamp (min v 1 * 180)"
proof (cases "0 < min v 1")
  case True
  then show ?thesis by (simp add: overlay_pixel_def Let_def numeral_3_eq_3)
next
  case False
  then have "min v 1 * 180 \<le> 0" by simp
  then have "toUint8Clamp (min v 1 * 180) = 0" by (rule toUint8Clamp_nonpos)
  with False show ?thesis by (simp add: overlay_pixel_def Let_def numeral_3_eq_3)
qed

text \<open>
  Claim C5, with the rounding the code has. For a pixel \<open>i\<close> of an intensity map
  whose value is not negative, with \<open>v\<close> the value clamped to 1 for display: if
  \<open>v = 0\<close> the four bytes of the pixel are \<open>(0, 0, 0, 0)\<close>; if \<open>v = 1\<close> they are
  \<open>(255, 0, 0, 180)\<close>, pure red with alpha 180; the alpha byte is the conversion of
  \<open>v * 180\<close> by the store into the clamped byte array, it is at most 180, it is at
  most one half away from \<open>v * 180\<close>, and it equals \<open>round (v * 180)\<close> whenever
  \<open>v * 180\<close> is not half way between two integers.
\<close>

theorem overlay_pixel_of_intensity:
  "i < length intensityMap \<and> width * height = length intensityMap \<and> 0 \<le> intensityMap ! i \<longrightarrow>
     (min (intensityMap ! i) 1 = 0 \<longrightarrow>
        take 4 (drop (4 * i) (colorize intensityMap (createImageData width height))) =
          [0, 0, 0, 0]) \<and>
     (min (intensityMap ! i) 1 = 1 \<longrightarrow>
        take 4 (drop (4 * i) (colorize intensityMap (createImageData width height))) =
          [255, 0, 0, 180]) \<and>
     colorize intensityMap (createImageData width height) ! (4 * i + 3) =
       toUint8Clamp (min (intensityMap ! i) 1 * 180) \<and>
     colorize intensityMap (createImageData width height) ! (4 * i + 3) \<le> 180 \<and>
     \<bar>real (colorize intensityMap (createImageData width height) ! (4 * i + 3)) -
        min (intensityMap ! i) 1 * 180\<bar> \<le> 1 / 2 \<and>
     (frac (min (intensityMap ! i) 1 * 180) \<noteq> 1 / 2 \<longrightarrow>
        int (colorize intensityMap (createImageData width height) ! (4 * i + 3)) =
          round (min (intensityMap ! i) 1 * 180))"
proof (intro impI)
  assume a: "i < length intensityMap \<and> width * height = length intensityMap \<and>
    0 \<le> intensityMap ! i"
  let ?v = "min (intensityMap ! i) 1"
  let ?data = "colorize intensityMap (createImageData width height)"
  from a have i: "i < length intensityMap" and wh: "width * height = length intensityMap"
    and v: "0 \<le> ?v * 180" "?v * 180 \<le> 180" by simp_all
  have px: "take 4 (drop (4 * i) ?data) = overlay_pixel (intensityMap ! i)"
    using i wh by (rule colorize_pixel)
  have al: "?data ! (4 * i + 3) = toUint8Clamp (?v * 180)"
    using colorize_nth [OF i _ wh, of 3] by (simp add: overlay_pixel_alpha)
  have "?v = 0 \<longrightarrow> take 4 (drop (4 * i) ?data) = [0, 0, 0, 0]"
    unfolding px by (simp add: overlay_pixel_zero)
  moreover have "?v = 1 \<longrightarrow> take 4 (drop (4 * i) ?data) = [255, 0, 0, 180]"
    unfolding px by (simp add: overlay_pixel_one)
  moreover have "?data ! (4 * i + 3) \<le> 180"
    unfolding al using v by (rule toUint8Clamp_le_180)
  moreover have "\<bar>real (?data ! (4 * i + 3)) - ?v * 180\<bar> \<le> 1 / 2"
    unfolding al using v by (intro toUint8Clamp_near) simp_all
  moreover have "frac (?v * 180) \<noteq> 1 / 2 \<longrightarrow> int (?data ! (4 * i + 3)) = round (?v * 180)"
    unfolding al using v by (intro impI toUint8Clamp_round) simp_all
  ultimately show "(?v = 0 \<longrightarrow> take 4 (drop (4 * i) ?data) = [0, 0, 0, 0]) \<and>
     (?v = 1 \<longrightarrow> take 4 (drop (4 * i) ?data) = [255, 0, 0, 180]) \<and>
     ?data ! (4 * i + 3) = toUint8Clamp (?v * 180) \<and>
     ?data ! (4 * i + 3) \<le> 180 \<and>
     \<bar>real (?data ! (4 * i + 3)) - ?v * 180\<bar> \<le> 1 / 2 \<and>
     (frac (?v * 180) \<noteq> 1 / 2 \<longrightarrow> int (?data ! (4 * i + 3)) = round (?v * 180))"
    using al by blast
qed

text \<open>
  Claim C5 as stated fails at a tie. The single point \<open>(20.625, 0)\<close> on a raster of
  one pixel gives the intensity \<open>1/8\<close>. Then \<open>1/8 * 180 = 22.5\<close>: the store into the
  clamped byte array rounds the tie to the even 22, where \<open>round\<close>
  (\<^verbatim>\<open>Math.round\<close>, used for the colour channels on line 34) gives 23.
\<close>

theorem alpha_tie_rounds_to_even:
  "accumulate [\<lparr>point_x = 165 / 8, point_y = 0\<rparr>] 1 1 = [1 / 8] \<and>
   colorize [1 / 8] (createImageData 1 1) ! (4 * 0 + 3) = 22 \<and>
   round (min ([1 / 8 :: real] ! 0) 1 * 180) = 23 \<and>
   int (colorize [1 / 8] (createImageData 1 1) ! (4 * 0 + 3)) \<noteq>
     round (min ([1 / 8 :: real] ! 0) 1 * 180)"
proof -
  let ?p = "\<lparr>point_x = 165 / 8, point_y = 0\<rparr>"
  have "distance ?p 0 0 = 165 / 8" by (simp add: distance_same_row)
  then have v: "accumulate [?p] 1 1 ! (0 * 1 + 0) = 1 / 8"
    by (subst accumulate_single)
      (simp_all add: contribution_def visited_def x0_def x1_def y0_def y1_def radius_def
        point_intensity_def)
  have "accumulate [?p] 1 1 = [accumulate [?p] 1 1 ! (0 * 1 + 0)]"
    by (rule nth_equalityI) simp_all
  then have acc: "accumulate [?p] 1 1 = [1 / 8]"
    by (simp only: v)
  have "colorize [1 / 8] (createImageData 1 1) ! (4 * 0 + 3) = overlay_pixel ([1 / 8] ! 0) ! 3"
    by (rule colorize_nth) simp_all
  also have "\<dots> = 22"
    by (simp add: overlay_pixel_alpha toUint8Clamp_def Let_def)
  finally have al: "colorize [1 / 8] (createImageData 1 1) ! (4 * 0 + 3) = 22" .
  have r: "round (min ([1 / 8 :: real] ! 0) 1 * 180) = 23"
    by (simp add: round_def)
  show ?thesis unfolding al r using acc by simp
qed

text \<open>
  The pixels of intensity 1 and of intensity 0 on a raster of one pixel.
\<close>

theorem overlay_pixel_of_intensity_witness:
  "(0::nat) < length [1::real] \<and> (1::nat) * 1 = length [1::real] \<and> 0 \<le> [1::real] ! 0 \<and>
   min ([1::real] ! 0) 1 = 1 \<and>
   take 4 (drop (4 * 0) (colorize [1] (createImageData 1 1))) = [255, 0, 0, 180] \<and>
   colorize [1] (createImageData 1 1) ! (4 * 0 + 3) = 180 \<and>
   frac (min ([1::real] ! 0) 1 * 180) \<noteq> 1 / 2 \<and>
   int (colorize [1] (createImageData 1 1) ! (4 * 0 + 3)) = round (min ([1::real] ! 0) 1 * 180) \<and>
   min ([0::real] ! 0) 1 = 0 \<and>
   take 4 (drop (4 * 0) (colorize [0] (createImageData 1 1))) = [0, 0, 0, 0]"
proof -
  have one: "toUint8Clamp (min ([1::real] ! 0) 1 * 180) = 180"
    by (simp add: toUint8Clamp_def Let_def)
  from overlay_pixel_of_intensity [of 0 "[1]" 1 1] overlay_pixel_of_intensity [of 0 "[0]" 1 1]
  show ?thesis unfolding one by (simp add: frac_def)
qed

section \<open>Properties of the canvas operations\<close>

lemma length_fillRect [simp]: "length (canvas_pixels (fillRect dx dy w h c)) = length (canvas_pixels c)"
  by (simp add: fillRect_def)

lemma putImageData_covering:
  assumes "length (canvas_pixels c) = canvas_width c * canvas_height c"
    and "data_width img = canvas_width c" "data_height img = canvas_height c"
  shows "canvas_pixels (putImageData img 0 0 c) =
     map (\<lambda>i. data_pixel img (i mod data_width img) (i div data_width img))
       [0..<data_width img * data_height img]"
proof -
  have "in_rect 0 0 (canvas_width c) (canvas_height c) (i mod canvas_width c) (i div canvas_width c)"
    if "i < canvas_width c * canvas_height c" for i
  proof -
    from that have "0 < canvas_width c" by (cases "canvas_width c") simp_all
    moreover from that have "i div canvas_width c < canvas_height c"
      by (simp add: less_mult_imp_div_less mult.commute)
    ultimately show ?thesis by (simp add: in_rect_def)
  qed
  then show ?thesis
    using assms by (simp add: putImageData_def Let_def)
qed

text \<open>
  Claim C9. The black fill of lines 41 and 42 and the composite operation
  \<^verbatim>\<open>'lighter'\<close> of line 43 do not show in the overlay: for all points and
  dimensions the function returns the same image as without these three lines,
  because \<^verbatim>\<open>putImageData\<close> writes every pixel of the canvas and the second
  canvas composites with its own context.
\<close>

theorem setup_has_no_effect:
  "createHeatmapOverlay points width height =
   createHeatmapOverlay_without_setup points width height"
proof -
  let ?img = "\<lparr>data_width = width, data_height = height,
     data = colorize (accumulate points width height) (createImageData width height)\<rparr>"
  let ?c1 = "(fillRect 0 0 width height ((createCanvas width height)\<lparr>fillStyle := black\<rparr>))
     \<lparr>globalCompositeOperation := Lighter\<rparr>"
  let ?c2 = "createCanvas width height"
  have "canvas_pixels (putImageData ?img 0 0 ?c1) = canvas_pixels (putImageData ?img 0 0 ?c2)"
    by (subst (1 2) putImageData_covering) (simp_all add: createCanvas_def fillRect_def)
  moreover have "canvas_width (putImageData ?img 0 0 ?c1) = canvas_width (putImageData ?img 0 0 ?c2)"
    "canvas_height (putImageData ?img 0 0 ?c1) = canvas_height (putImageData ?img 0 0 ?c2)"
    by (simp_all add: putImageData_def createCanvas_def fillRect_def)
  ultimately have "toBuffer (putImageData ?img 0 0 ?c1) = toBuffer (putImageData ?img 0 0 ?c2)"
    by (simp add: toBuffer_def)
  then show ?thesis
    by (simp add: createHeatmapOverlay_def createHeatmapOverlay_without_setup_def Let_def)
qed

lemma blend_onto_transparent [simp]: "blend SourceOver s transparent = s"
  by (cases s) (simp add: blend_def blend_channel_def transparent_def)

lemma blend_transparent [simp]: "blend SourceOver transparent d = d"
  by (cases d) (simp add: blend_def blend_channel_def transparent_def)

lemma in_rect_whole:
  assumes "i < w * h"
  shows "in_rect 0 0 w h (i mod w) (i div w)"
proof -
  from assms have "0 < w" by (cases w) simp_all
  moreover from assms have "i div w < h"
    by (simp add: less_mult_imp_div_less mult.commute)
  ultimately show ?thesis by (simp add: in_rect_def)
qed

lemma drawImage_whole:
  assumes "length (canvas_pixels c) = canvas_width c * canvas_height c"
    and "image_width img = canvas_width c" "image_height img = canvas_height c"
  shows "canvas_pixels (drawImage img 0 0 c) =
     map (\<lambda>i. blend (globalCompositeOperation c) (image_pixels img ! i) (canvas_pixels c ! i))
       [0..<canvas_width c * canvas_height c]"
  using assms by (simp add: drawImage_def Let_def in_rect_whole)

lemma colorize_step_dark:
  "min (m ! i) 1 \<le> 0 \<Longrightarrow> snd (colorize_step m i st) = snd st"
  by (simp add: colorize_step_def Let_def min_le_iff_disj)

lemma fold_colorize_dark:
  "(\<And>i. i \<in> set ixs \<Longrightarrow> min (m ! i) 1 \<le> 0) \<Longrightarrow>
   snd (fold (colorize_step m) ixs st) = snd st"
  by (induction ixs arbitrary: st) (simp_all add: colorize_step_dark)

lemma colorize_zero: "colorize (replicate n 0) d = d"
  unfolding colorize_def by (subst fold_colorize_dark) simp_all

lemma data_pixel_zero:
  assumes "i < w * h"
  shows "data_pixel \<lparr>data_width = w, data_height = h, data = createImageData w h\<rparr>
     (i mod w) (i div w) = transparent"
proof -
  have "i div w * w + i mod w = i" by simp
  with assms show ?thesis
    by (simp add: data_pixel_def Let_def createImageData_def premultiply_def transparent_def)
qed

lemma createHeatmapOverlay_no_points:
  "createHeatmapOverlay [] w h =
     \<lparr>image_width = w, image_height = h, image_pixels = replicate (w * h) transparent\<rparr>"
proof -
  let ?img = "\<lparr>data_width = w, data_height = h, data = createImageData w h\<rparr>"
  let ?c = "(fillRect 0 0 w h ((createCanvas w h)\<lparr>fillStyle := black\<rparr>))
     \<lparr>globalCompositeOperation := Lighter\<rparr>"
  have w: "canvas_width ?c = w" "canvas_height ?c = h" "length (canvas_pixels ?c) = w * h"
    by (simp_all add: fillRect_def createCanvas_def)
  have "canvas_pixels (putImageData ?img 0 0 ?c) =
        map (\<lambda>i. data_pixel ?img (i mod w) (i div w)) [0..<w * h]"
    using w by (simp add: putImageData_def Let_def in_rect_whole)
  also have "\<dots> = map (\<lambda>i. transparent) [0..<w * h]"
    by (rule map_cong) (simp_all add: data_pixel_zero)
  also have "\<dots> = replicate (w * h) transparent"
    by (simp add: map_replicate_trivial)
  finally have px: "canvas_pixels (putImageData ?img 0 0 ?c) = replicate (w * h) transparent" .
  have dims: "canvas_width (putImageData ?img 0 0 ?c) = w"
    "canvas_height (putImageData ?img 0 0 ?c) = h"
    by (simp_all add: putImageData_def fillRect_def createCanvas_def)
  define painted where "painted = toBuffer (putImageData ?img 0 0 ?c)"
  have painted: "image_width painted = w" "image_height painted = h"
    "image_pixels painted = replicate (w * h) transparent"
    by (simp_all add: painted_def toBuffer_def dims px)
  define blank where "blank = createCanvas w h"
  have blank: "canvas_width blank = w" "canvas_height blank = h"
    "canvas_pixels blank = replicate (w * h) transparent"
    "globalCompositeOperation blank = SourceOver"
    by (simp_all add: blank_def createCanvas_def)
  have "canvas_pixels (drawImage painted 0 0 blank) =
        map (\<lambda>i. blend SourceOver (image_pixels painted ! i) (canvas_pixels blank ! i))
          [0..<w * h]"
    using drawImage_whole [of blank painted] by (simp add: blank painted)
  also have "\<dots> = map (\<lambda>i. transparent) [0..<w * h]"
    by (rule map_cong) (simp_all add: blank painted)
  also have "\<dots> = replicate (w * h) transparent"
    by (simp add: map_replicate_trivial)
  finally have "toBuffer (drawImage painted 0 0 blank) =
     \<lparr>image_width = w, image_height = h, image_pixels = replicate (w * h) transparent\<rparr>"
    by (simp add: toBuffer_def drawImage_def blank)
  moreover have "createHeatmapOverlay [] w h = toBuffer (drawImage painted 0 0 blank)"
    by (simp add: createHeatmapOverlay_def Let_def accumulate_def colorize_zero painted_def
        blank_def)
  ultimately show ?thesis by simp
qed

lemma drawImage_frame [simp]:
  "canvas_width (drawImage img dx dy c) = canvas_width c"
  "canvas_height (drawImage img dx dy c) = canvas_height c"
  "globalCompositeOperation (drawImage img dx dy c) = globalCompositeOperation c"
  "length (canvas_pixels (drawImage img dx dy c)) = length (canvas_pixels c)"
  by (simp_all add: drawImage_def)

lemma createCanvas_frame [simp]:
  "canvas_width (createCanvas w h) = w"
  "canvas_height (createCanvas w h) = h"
  "globalCompositeOperation (createCanvas w h) = SourceOver"
  "canvas_pixels (createCanvas w h) = replicate (w * h) transparent"
  by (simp_all add: createCanvas_def)

lemma draw_on_blank:
  assumes "length (image_pixels base) = image_width base * image_height base"
  shows "canvas_pixels (drawImage base 0 0 (createCanvas (image_width base) (image_height base))) =
     image_pixels base"
proof -
  let ?n = "image_width base * image_height base"
  have "canvas_pixels (drawImage base 0 0 (createCanvas (image_width base) (image_height base))) =
        map (\<lambda>i. blend SourceOver (image_pixels base ! i) (replicate ?n transparent ! i)) [0..<?n]"
    by (subst drawImage_whole) simp_all
  also have "\<dots> = map (\<lambda>i. image_pixels base ! i) [0..<?n]"
    by (rule map_cong) simp_all
  also have "\<dots> = image_pixels base"
    using map_nth [of "image_pixels base"] assms by simp
  finally show ?thesis .
qed

lemma draw_transparent:
  assumes "length (canvas_pixels c) = canvas_width c * canvas_height c"
    and "globalCompositeOperation c = SourceOver"
  shows "canvas_pixels
     (drawImage \<lparr>image_width = canvas_width c, image_height = canvas_height c,
        image_pixels = replicate (canvas_width c * canvas_height c) transparent\<rparr> 0 0 c) =
     canvas_pixels c"
proof -
  let ?n = "canvas_width c * canvas_height c"
  let ?img = "\<lparr>image_width = canvas_width c, image_height = canvas_height c,
        image_pixels = replicate ?n transparent\<rparr>"
  have "canvas_pixels (drawImage ?img 0 0 c) =
        map (\<lambda>i. blend SourceOver (replicate ?n transparent ! i) (canvas_pixels c ! i)) [0..<?n]"
    using assms by (subst drawImage_whole) simp_all
  also have "\<dots> = map (\<lambda>i. canvas_pixels c ! i) [0..<?n]"
    by (rule map_cong) simp_all
  also have "\<dots> = canvas_pixels c"
    using map_nth [of "canvas_pixels c"] assms by simp
  finally show ?thesis .
qed

lemma finalScreenshot_no_overlay:
  assumes "length (image_pixels base) = image_width base * image_height base"
  shows "finalScreenshot base None = base"
  by (simp add: finalScreenshot_def Let_def toBuffer_def draw_on_blank [OF assms])

lemma finalScreenshot_transparent_overlay:
  assumes "length (image_pixels base) = image_width base * image_height base"
  shows "finalScreenshot base
     (Some \<lparr>image_width = image_width base, image_height = image_height base,
        image_pixels = replicate (image_width base * image_height base) transparent\<rparr>) = base"
proof -
  define c where "c = drawImage base 0 0 (createCanvas (image_width base) (image_height base))"
  have c: "canvas_width c = image_width base" "canvas_height c = image_height base"
    "globalCompositeOperation c = SourceOver" "canvas_pixels c = image_pixels base"
    by (simp_all add: c_def draw_on_blank [OF assms])
  have "canvas_pixels
     (drawImage \<lparr>image_width = canvas_width c, image_height = canvas_height c,
        image_pixels = replicate (canvas_width c * canvas_height c) transparent\<rparr> 0 0 c) =
     canvas_pixels c"
    by (rule draw_transparent) (simp_all add: c assms)
  then show ?thesis
    by (simp add: finalScreenshot_def Let_def toBuffer_def c_def [symmetric] c)
qed

section \<open>Properties of the request handler\<close>

lemmas step_defs = call_def returning_def and_then_def closeBrowser_def






text \<open>
  Claim C4. \<^verbatim>\<open>puppeteer.launch\<close> is awaited before \<^verbatim>\<open>try\<close> (lines 97 to 119).
  When the browser does not start, the handler throws the error of the launch as it
  is, with its message, and not the error 500 with the fixed message that the
  \<^verbatim>\<open>catch\<close> of lines 149 to 155 throws for a navigation timeout.
\<close>

theorem launch_failure_not_wrapped:
  "handler no_browser_world example_request =
     (Inl (Thrown ''Failed to launch the browser process''), [Launch]) \<and>
   fst (handler timeout_world example_request) =
     Inl (H3Error 500 ''Failed to capture screenshot'') \<and>
   fst (handler no_browser_world example_request) \<noteq>
     Inl (H3Error 500 ''Failed to capture screenshot'')"
  by (simp add: handler_def try_block_def no_browser_world_def timeout_world_def ok_world_def
      step_defs)

text \<open>
  Claim C10. Two requests that differ only in \<open>height\<close> give the same result and
  the same calls: the viewport is set with the height 0 and nothing else reads the
  field.
\<close>

theorem height_is_ignored:
  "handler w (req\<lparr>req_height := h\<rparr>) = handler w req"
proof -
  have "try_block w (req\<lparr>req_height := h\<rparr>) = try_block w req"
    by (simp add: try_block_def)
  then show ?thesis by (simp only: handler_def)
qed

lemma handler_success:
  assumes "puppeteer_launch w = Inr ()" "browser_newPage w = Inr ()"
    "page_setViewport w (req_width req) 0 = Inr ()" "page_goto w (req_url req) = Inr ()"
    "page_screenshot w (req_url req) (req_width req) 0 = Inr buffer"
    "loadImage w buffer = Inr base"
    "browser_close w 0 = Inr ()"
  shows "req_points req = None \<Longrightarrow>
      handler w req =
        (Inr \<lparr>screenshot = finalScreenshot base None, fullPage = True\<rparr>,
         [Launch, NewPage, SetViewport (req_width req) 0, Goto (req_url req), Screenshot,
          LoadImage, Close])"
    and "req_points req = Some ps \<Longrightarrow>
      loadImage w (createHeatmapOverlay ps (image_width base) (image_height base)) = Inr img \<Longrightarrow>
      handler w req =
        (Inr \<lparr>screenshot = finalScreenshot base (Some img), fullPage = True\<rparr>,
         [Launch, NewPage, SetViewport (req_width req) 0, Goto (req_url req), Screenshot,
          LoadImage, LoadImage, Close])"
  using assms by (simp_all add: handler_def try_block_def step_defs heatmapBuffer_def)

text \<open>
  Claim C6, as the code has it. In a run where every call succeeds, the decoded
  screenshot is a raster of \<open>width * height\<close> pixels and the decoder returns the
  overlay it is given: when \<open>points\<close> is absent no overlay is made, when it is the
  empty list the overlay is made and every pixel of it is transparent, and in both
  cases the image returned is the screenshot, pixel for pixel.
\<close>

theorem screenshot_unchanged_without_points:
  "puppeteer_launch w = Inr () \<and> browser_newPage w = Inr () \<and>
   page_setViewport w (req_width req) 0 = Inr () \<and> page_goto w (req_url req) = Inr () \<and>
   page_screenshot w (req_url req) (req_width req) 0 = Inr buffer \<and>
   loadImage w buffer = Inr base \<and>
   length (image_pixels base) = image_width base * image_height base \<and>
   loadImage w (createHeatmapOverlay [] (image_width base) (image_height base)) =
     Inr (createHeatmapOverlay [] (image_width base) (image_height base)) \<and>
   browser_close w 0 = Inr () \<longrightarrow>
     (req_points req = None \<longrightarrow>
        heatmapBuffer (req_points req) (image_width base) (image_height base) = None \<and>
        fst (handler w req) = Inr \<lparr>screenshot = base, fullPage = True\<rparr>) \<and>
     (req_points req = Some [] \<longrightarrow>
        heatmapBuffer (req_points req) (image_width base) (image_height base) =
          Some \<lparr>image_width = image_width base, image_height = image_height base,
            image_pixels = replicate (image_width base * image_height base) transparent\<rparr> \<and>
        fst (handler w req) = Inr \<lparr>screenshot = base, fullPage = True\<rparr>)"
proof (intro impI conjI)
  assume a: "puppeteer_launch w = Inr () \<and> browser_newPage w = Inr () \<and>
   page_setViewport w (req_width req) 0 = Inr () \<and> page_goto w (req_url req) = Inr () \<and>
   page_screenshot w (req_url req) (req_width req) 0 = Inr buffer \<and>
   loadImage w buffer = Inr base \<and>
   length (image_pixels base) = image_width base * image_height base \<and>
   loadImage w (createHeatmapOverlay [] (image_width base) (image_height base)) =
     Inr (createHeatmapOverlay [] (image_width base) (image_height base)) \<and>
   browser_close w 0 = Inr ()"
  then have wf: "length (image_pixels base) = image_width base * image_height base" by simp
  from a have steps: "puppeteer_launch w = Inr ()" "browser_newPage w = Inr ()"
    "page_setViewport w (req_width req) 0 = Inr ()" "page_goto w (req_url req) = Inr ()"
    "page_screenshot w (req_url req) (req_width req) 0 = Inr buffer"
    "loadImage w buffer = Inr base" "browser_close w 0 = Inr ()"
    by blast+
  from a have decode: "loadImage w (createHeatmapOverlay [] (image_width base) (image_height base)) =
     Inr (createHeatmapOverlay [] (image_width base) (image_height base))"
    by blast
  note run = handler_success [OF steps]
  {
    assume n: "req_points req = None"
    then show "heatmapBuffer (req_points req) (image_width base) (image_height base) = None"
      by (simp add: heatmapBuffer_def)
    from n have "handler w req =
        (Inr \<lparr>screenshot = finalScreenshot base None, fullPage = True\<rparr>,
         [Launch, NewPage, SetViewport (req_width req) 0, Goto (req_url req), Screenshot,
          LoadImage, Close])"
      by (rule run(1))
    then show "fst (handler w req) = Inr \<lparr>screenshot = base, fullPage = True\<rparr>"
      by (simp add: finalScreenshot_no_overlay [OF wf])
  }
  {
    assume s: "req_points req = Some []"
    then show "heatmapBuffer (req_points req) (image_width base) (image_height base) =
          Some \<lparr>image_width = image_width base, image_height = image_height base,
            image_pixels = replicate (image_width base * image_height base) transparent\<rparr>"
      by (simp add: heatmapBuffer_def createHeatmapOverlay_no_points)
    from s decode have "handler w req =
        (Inr \<lparr>screenshot = finalScreenshot base
           (Some (createHeatmapOverlay [] (image_width base) (image_height base))),
           fullPage = True\<rparr>,
         [Launch, NewPage, SetViewport (req_width req) 0, Goto (req_url req), Screenshot,
          LoadImage, LoadImage, Close])"
      by (rule run(2))
    then show "fst (handler w req) = Inr \<lparr>screenshot = base, fullPage = True\<rparr>"
      by (simp add: createHeatmapOverlay_no_points finalScreenshot_transparent_overlay [OF wf])
  }
qed

text \<open>
  Claim C6 as stated fails for the empty list: \<^verbatim>\<open>points ? ... : null\<close> takes the
  first branch for \<open>[]\<close>, so the overlay is made (a transparent one) and loaded,
  which the second \<open>LoadImage\<close> of the trace shows.
\<close>

theorem empty_points_still_make_overlay:
  "heatmapBuffer (Some []) 1 1 =
     Some \<lparr>image_width = 1, image_height = 1, image_pixels = [transparent]\<rparr> \<and>
   heatmapBuffer (Some []) 1 1 \<noteq> None \<and>
   snd (handler ok_world (example_request\<lparr>req_points := Some []\<rparr>)) =
     [Launch, NewPage, SetViewport 800 0, Goto ''https://example.test'', Screenshot,
      LoadImage, LoadImage, Close] \<and>
   snd (handler ok_world example_request) =
     [Launch, NewPage, SetViewport 800 0, Goto ''https://example.test'', Screenshot,
      LoadImage, Close]"
  by (simp add: heatmapBuffer_def createHeatmapOverlay_no_points handler_def try_block_def
      step_defs ok_world_def example_request_def white_page_def)

text \<open>
  The page of one white pixel, without points and with the empty list.
\<close>

theorem screenshot_unchanged_without_points_witness:
  "puppeteer_launch ok_world = Inr () \<and> browser_newPage ok_world = Inr () \<and>
   page_setViewport ok_world (req_width example_request) 0 = Inr () \<and>
   page_goto ok_world (req_url example_request) = Inr () \<and>
   page_screenshot ok_world (req_url example_request) (req_width example_request) 0 =
     Inr white_page \<and>
   loadImage ok_world white_page = Inr white_page \<and>
   length (image_pixels white_page) = image_width white_page * image_height white_page \<and>
   loadImage ok_world
     (createHeatmapOverlay [] (image_width white_page) (image_height white_page)) =
     Inr (createHeatmapOverlay [] (image_width white_page) (image_height white_page)) \<and>
   browser_close ok_world 0 = Inr () \<and>
   req_points example_request = None \<and>
   fst (handler ok_world example_request) =
     Inr \<lparr>screenshot = white_page, fullPage = True\<rparr> \<and>
   req_points (example_request\<lparr>req_points := Some []\<rparr>) = Some [] \<and>
   fst (handler ok_world (example_request\<lparr>req_points := Some []\<rparr>)) =
     Inr \<lparr>screenshot = white_page, fullPage = True\<rparr>"
  using screenshot_unchanged_without_points [of ok_world example_request white_page white_page]
    screenshot_unchanged_without_points
      [of ok_world "example_request\<lparr>req_points := Some []\<rparr>" white_page white_page]
  by (simp add: ok_world_def example_request_def white_page_def)


section \<open>Properties of the accumulation in the arithmetic of the code\<close>

subsection \<open>The pixels a point updates\<close>

lemma accumulate_pixel_fp_nth:
  "accumulate_pixel_fp p w y x m ! i =
     (if i = nat (y * int w + x) \<and> i < length m \<and> distance_fp p x y < radius
      then fround (min (dround (m ! i + point_intensity_fp (distance_fp p x y))) maxPointsPerPixel)
      else m ! i)"
  by (cases "nat (y * int w + x) < length m")
     (auto simp: accumulate_pixel_fp_def Let_def nth_list_update list_update_beyond)

lemma length_accumulate_pixel_fp [simp]:
  "length (accumulate_pixel_fp p w y x m) = length m"
  by (simp add: accumulate_pixel_fp_def Let_def)

lemma length_flat_fp [simp]:
  "length (fold (\<lambda>(y, x). accumulate_pixel_fp p w y x) ks m) = length m"
  by (induction ks arbitrary: m) (simp_all add: case_prod_beta)

lemma flat_other_fp:
  "i \<notin> pixel_index w ` set ks \<Longrightarrow>
   fold (\<lambda>(y, x). accumulate_pixel_fp p w y x) ks m ! i = m ! i"
proof (induction ks arbitrary: m)
  case Nil
  show ?case by simp
next
  case (Cons k ks)
  obtain y x where k: "k = (y, x)" by (cases k)
  from Cons.prems have "i \<noteq> nat (y * int w + x)" and "i \<notin> pixel_index w ` set ks"
    by (auto simp: k pixel_index_def)
  then show ?case using Cons.IH by (simp add: k accumulate_pixel_fp_nth)
qed

lemma flat_hit_fp:
  "distinct (map (pixel_index w) ks) \<Longrightarrow> (y, x) \<in> set ks \<Longrightarrow>
   fold (\<lambda>(y, x). accumulate_pixel_fp p w y x) ks m ! nat (y * int w + x) =
   accumulate_pixel_fp p w y x m ! nat (y * int w + x)"
proof (induction ks arbitrary: m)
  case Nil
  then show ?case by simp
next
  case (Cons k ks)
  obtain y' x' where k: "k = (y', x')" by (cases k)
  show ?case
  proof (cases "k = (y, x)")
    case True
    with Cons.prems have "nat (y * int w + x) \<notin> pixel_index w ` set ks"
      by (auto simp: pixel_index_def)
    then show ?thesis using True by (simp add: flat_other_fp)
  next
    case False
    from Cons.prems have d: "distinct (map (pixel_index w) ks)"
      and notin: "pixel_index w k \<notin> pixel_index w ` set ks"
      by simp_all
    from False Cons.prems have mem: "(y, x) \<in> set ks" by simp
    from notin mem have "pixel_index w k \<noteq> pixel_index w (y, x)" by blast
    then have ne: "nat (y' * int w + x') \<noteq> nat (y * int w + x)"
      by (simp add: k pixel_index_def)
    have "fold (\<lambda>(y, x). accumulate_pixel_fp p w y x) (k # ks) m ! nat (y * int w + x) =
          accumulate_pixel_fp p w y x (accumulate_pixel_fp p w y' x' m) ! nat (y * int w + x)"
      using Cons.IH [OF d mem] by (simp add: k)
    also have "\<dots> = accumulate_pixel_fp p w y x m ! nat (y * int w + x)"
      using ne by (simp add: accumulate_pixel_fp_nth)
    finally show ?thesis .
  qed
qed

lemma accumulate_point_fp_flat:
  "accumulate_point_fp w h p m =
     fold (\<lambda>(y, x). accumulate_pixel_fp p w y x)
       (List.product [y0_fp p..y1_fp p h - 1] [x0_fp p..x1_fp p w - 1]) m"
  by (simp add: accumulate_point_fp_def fold_nested_product)

lemma length_accumulate_point_fp [simp]:
  "length (accumulate_point_fp w h p m) = length m"
  by (simp add: accumulate_point_fp_flat)

lemma length_fold_points_fp [simp]:
  "length (fold (accumulate_point_fp w h) ps m) = length m"
  by (induction ps arbitrary: m) simp_all

lemma accumulate_point_fp_nth:
  assumes "x < w" "y < h" "length m = w * h"
  shows "accumulate_point_fp w h p m ! (y * w + x) =
     (if reaches_fp p w h x y
      then fround (min (dround (m ! (y * w + x) +
             point_intensity_fp (distance_fp p (int x) (int y)))) maxPointsPerPixel)
      else m ! (y * w + x))"
proof -
  let ?ks = "List.product [y0_fp p..y1_fp p h - 1] [x0_fp p..x1_fp p w - 1]"
  let ?box = "x0_fp p \<le> int x \<and> int x < x1_fp p w \<and> y0_fp p \<le> int y \<and> int y < y1_fp p h"
  have idx: "nat (int y * int w + int x) = y * w + x"
    by (simp add: nat_add_distrib nat_mult_distrib)
  from assms have len: "y * w + x < length m" by (simp add: pixel_index_less)
  show ?thesis
  proof (cases ?box)
    case True
    then have mem: "(int y, int x) \<in> set ?ks" by auto
    have "distinct (map (pixel_index w) ?ks)"
      by (rule box_distinct) (simp_all add: y0_fp_def x0_fp_def x1_fp_def)
    from flat_hit_fp [OF this mem, of p m] show ?thesis
      using True len by (simp add: accumulate_point_fp_flat idx accumulate_pixel_fp_nth reaches_fp_def)
  next
    case False
    have "y * w + x \<notin> pixel_index w ` set ?ks"
    proof
      assume "y * w + x \<in> pixel_index w ` set ?ks"
      then obtain k where k: "k \<in> set ?ks" and e: "y * w + x = pixel_index w k" by auto
      from k have b: "0 \<le> fst k" "0 \<le> snd k" "snd k < int w"
        by (auto simp: y0_fp_def x0_fp_def x1_fp_def)
      from e have "nat (int y * int w + int x) = nat (fst k * int w + snd k)"
        by (simp add: idx pixel_index_def)
      with b assms have "int y = fst k \<and> int x = snd k"
        by (intro pixel_index_inj) simp_all
      with k have ?box by auto
      with False show False by simp
    qed
    moreover from False have "\<not> reaches_fp p w h x y" by (auto simp: reaches_fp_def)
    ultimately show ?thesis by (simp add: accumulate_point_fp_flat flat_other_fp)
  qed
qed

lemma accumulate_fp_fold:
  assumes "x < w" "y < h"
  shows "length m = w * h \<Longrightarrow>
     fold (accumulate_point_fp w h) ps m ! (y * w + x) =
     fold (\<lambda>p v. if reaches_fp p w h x y
                 then fround (min (dround (v + point_intensity_fp (distance_fp p (int x) (int y))))
                        maxPointsPerPixel)
                 else v)
       ps (m ! (y * w + x))"
proof (induction ps arbitrary: m)
  case Nil
  show ?case by simp
next
  case (Cons p ps)
  from Cons.IH [of "accumulate_point_fp w h p m"] Cons.prems
  show ?case by (simp add: accumulate_point_fp_nth [OF assms])
qed

subsection \<open>Rounding to the nearest binary number\<close>

lemma rne_floor:
  "rne x = \<lfloor>x\<rfloor> \<and> x \<le> of_int \<lfloor>x\<rfloor> + 1 / 2 \<or>
   rne x = \<lfloor>x\<rfloor> + 1 \<and> of_int \<lfloor>x\<rfloor> + 1 / 2 \<le> x"
  by (cases "x < of_int \<lfloor>x\<rfloor> + 1 / 2"; cases "x > of_int \<lfloor>x\<rfloor> + 1 / 2";
      cases "even \<lfloor>x\<rfloor>") (simp_all add: rne_def Let_def)

lemma rne_cases:
  obtains "rne x = \<lfloor>x\<rfloor>" "x \<le> of_int \<lfloor>x\<rfloor> + 1 / 2"
  | "rne x = \<lfloor>x\<rfloor> + 1" "of_int \<lfloor>x\<rfloor> + 1 / 2 \<le> x"
  using rne_floor [of x] by blast

lemma rne_of_int [simp]: "rne (of_int n) = n"
  by (simp add: rne_def)

lemma rne_ge: "of_int n \<le> x \<Longrightarrow> n \<le> rne x"
proof -
  assume "of_int n \<le> x"
  then have "n \<le> \<lfloor>x\<rfloor>" by (simp add: le_floor_iff)
  then show ?thesis by (cases x rule: rne_cases) simp_all
qed

lemma rne_le: "x \<le> of_int n \<Longrightarrow> rne x \<le> n"
proof (cases "x = of_int n")
  case True
  then show ?thesis by simp
next
  case False
  assume "x \<le> of_int n"
  with False have "x < of_int n" by simp
  then have "\<lfloor>x\<rfloor> < n" by (simp add: floor_less_iff)
  then show ?thesis by (cases x rule: rne_cases) simp_all
qed

lemma rne_mono: "x \<le> y \<Longrightarrow> rne x \<le> rne y"
proof -
  assume xy: "x \<le> y"
  then have f: "\<lfloor>x\<rfloor> \<le> \<lfloor>y\<rfloor>" by (rule floor_mono)
  show ?thesis
  proof (cases "\<lfloor>x\<rfloor> = \<lfloor>y\<rfloor>")
    case True
    with xy show ?thesis
      by (auto simp: rne_def Let_def)
  next
    case False
    with f have "\<lfloor>x\<rfloor> + 1 \<le> \<lfloor>y\<rfloor>" by simp
    moreover have "rne x \<le> \<lfloor>x\<rfloor> + 1" by (cases x rule: rne_cases) simp_all
    moreover have "\<lfloor>y\<rfloor> \<le> rne y" by (cases y rule: rne_cases) simp_all
    ultimately show ?thesis by linarith
  qed
qed

lemma round_binary_eval:
  assumes "0 < x" "2 ^ (p - 1) \<le> x * 2 ^ s" "x * 2 ^ s < 2 ^ p" "0 < p"
  shows "round_binary p x = of_int (rne (x * 2 ^ s)) / 2 ^ s"
proof -
  have p: "(2::real) ^ p = 2 * 2 ^ (p - 1)" using assms(4) by (cases p) simp_all
  have e: "\<lfloor>log 2 \<bar>x\<bar>\<rfloor> = int p - 1 - int s"
  proof -
    have lo: "2 powr of_int (int p - 1 - int s) = (2::real) ^ (p - 1) / 2 ^ s"
    proof -
      have "of_int (int p - 1 - int s) = real (p - 1) - real s"
        using assms(4) by (simp add: of_nat_diff)
      then show ?thesis by (simp only: powr_diff powr_realpow zero_less_numeral)
    qed
    have hi: "2 powr (of_int (int p - 1 - int s) + 1) = (2::real) ^ p / 2 ^ s"
    proof -
      have "of_int (int p - 1 - int s) + 1 = real p - real s" by simp
      then show ?thesis by (simp only: powr_diff powr_realpow zero_less_numeral)
    qed
    have "(2::real) ^ (p - 1) / 2 ^ s \<le> x" using assms(2) by (simp add: pos_divide_le_eq)
    moreover have "x < (2::real) ^ p / 2 ^ s" using assms(3) by (simp add: pos_less_divide_eq)
    ultimately have "2 powr of_int (int p - 1 - int s) \<le> x \<and>
        x < 2 powr (of_int (int p - 1 - int s) + 1)"
      by (simp only: lo hi)
    then show ?thesis using assms(1) by (simp add: floor_log_eq_powr_iff)
  qed
  have "2 powr of_int (int p - 1 - int s - int p + 1) = 1 / (2::real) ^ s"
    by (simp add: powr_minus powr_realpow inverse_eq_divide)
  then show ?thesis
    using assms(1) unfolding round_binary_def Let_def e by simp
qed

lemma round_binary_binade:
  assumes "0 < x" "0 < p"
  shows "2 powr of_int \<lfloor>log 2 x\<rfloor> \<le> round_binary p x \<and>
     round_binary p x \<le> 2 powr of_int (\<lfloor>log 2 x\<rfloor> + 1)"
proof -
  define e where "e = \<lfloor>log 2 x\<rfloor>"
  define q :: real where "q = 2 powr of_int (e - int p + 1)"
  have q: "0 < q" by (simp add: q_def)
  have b: "2 powr of_int e \<le> x" "x < 2 powr (of_int e + 1)"
    using floor_log_eq_powr_iff [of x 2 e] assms(1) by (simp_all add: e_def)
  have lo: "2 powr of_int e = 2 ^ (p - 1) * q"
  proof -
    have "of_int e = real (p - 1) + of_int (e - int p + 1)"
      using assms(2) by (simp add: of_nat_diff)
    then show ?thesis unfolding q_def by (simp only: powr_add powr_realpow zero_less_numeral)
  qed
  have hi: "2 powr (of_int e + 1) = 2 ^ p * q"
  proof -
    have "of_int e + 1 = real p + of_int (e - int p + 1)" by simp
    then show ?thesis unfolding q_def by (simp only: powr_add powr_realpow zero_less_numeral)
  qed
  have r: "round_binary p x = of_int (rne (x / q)) * q"
    using assms(1) by (simp add: round_binary_def Let_def e_def q_def)
  from b(1) have "2 ^ (p - 1) * q \<le> x" by (simp only: lo)
  then have "of_int (2 ^ (p - 1)) \<le> x / q" using q by (simp add: pos_le_divide_eq)
  then have "2 ^ (p - 1) \<le> rne (x / q)" by (rule rne_ge)
  then have "(2::real) ^ (p - 1) \<le> of_int (rne (x / q))"
    by (metis of_int_le_iff of_int_numeral of_int_power)
  then have l: "2 powr of_int e \<le> round_binary p x"
    unfolding r lo using q by (simp add: mult_right_mono)
  from b(2) have "x < 2 ^ p * q" by (simp only: hi)
  then have "x / q \<le> of_int (2 ^ p)" using q by (simp add: pos_divide_le_eq)
  then have "rne (x / q) \<le> 2 ^ p" by (rule rne_le)
  then have "of_int (rne (x / q)) \<le> (2::real) ^ p"
    by (metis of_int_le_iff of_int_numeral of_int_power)
  then have "round_binary p x \<le> 2 powr (of_int e + 1)"
    unfolding r hi using q by (simp add: mult_right_mono)
  with l show ?thesis by (simp add: e_def)
qed

lemma round_binary_nonneg:
  assumes "0 \<le> x" "0 < p"
  shows "0 \<le> round_binary p x"
proof (cases "x = 0")
  case True
  then show ?thesis by (simp add: round_binary_def)
next
  case False
  with assms have "0 < x" by simp
  from round_binary_binade [OF this assms(2)]
  have "2 powr of_int \<lfloor>log 2 x\<rfloor> \<le> round_binary p x" by simp
  moreover have "(0::real) \<le> 2 powr of_int \<lfloor>log 2 x\<rfloor>" by simp
  ultimately show ?thesis by linarith
qed

lemma round_binary_mono:
  assumes "0 \<le> x" "x \<le> y" "0 < p"
  shows "round_binary p x \<le> round_binary p y"
proof (cases "x = 0")
  case True
  then have "round_binary p x = 0" by (simp add: round_binary_def)
  moreover from assms have "0 \<le> round_binary p y" by (intro round_binary_nonneg) simp_all
  ultimately show ?thesis by simp
next
  case False
  with assms have x: "0 < x" and y: "0 < y" by simp_all
  have e: "\<lfloor>log 2 x\<rfloor> \<le> \<lfloor>log 2 y\<rfloor>"
    using x assms(2) by (intro floor_mono) simp
  show ?thesis
  proof (cases "\<lfloor>log 2 x\<rfloor> = \<lfloor>log 2 y\<rfloor>")
    case True
    define q :: real where "q = 2 powr of_int (\<lfloor>log 2 y\<rfloor> - int p + 1)"
    have q: "0 < q" by (simp add: q_def)
    have "x / q \<le> y / q" using assms(2) q by (simp add: divide_right_mono)
    then have "rne (x / q) \<le> rne (y / q)" by (rule rne_mono)
    then have "of_int (rne (x / q)) * q \<le> of_int (rne (y / q)) * q"
      using q by (simp add: mult_right_mono)
    then show ?thesis
      using x y True by (simp add: round_binary_def Let_def q_def)
  next
    case False
    with e have "\<lfloor>log 2 x\<rfloor> + 1 \<le> \<lfloor>log 2 y\<rfloor>" by simp
    then have "(2::real) powr of_int (\<lfloor>log 2 x\<rfloor> + 1) \<le> 2 powr of_int \<lfloor>log 2 y\<rfloor>"
      by (intro powr_mono) simp_all
    moreover have "round_binary p x \<le> 2 powr of_int (\<lfloor>log 2 x\<rfloor> + 1)"
      using round_binary_binade [OF x assms(3)] by simp
    moreover have "2 powr of_int \<lfloor>log 2 y\<rfloor> \<le> round_binary p y"
      using round_binary_binade [OF y assms(3)] by simp
    ultimately show ?thesis by linarith
  qed
qed

lemma round_binary_int:
  assumes "\<bar>n\<bar> < 2 ^ p" "0 < p"
  shows "round_binary p (of_int n) = of_int n"
proof (cases "n = 0")
  case True
  then show ?thesis by (simp add: round_binary_def)
next
  case False
  define e where "e = \<lfloor>log 2 \<bar>real_of_int n\<bar>\<rfloor>"
  from False have pos: "0 < \<bar>real_of_int n\<bar>" by simp
  have b: "2 powr of_int e \<le> \<bar>real_of_int n\<bar>"
    using floor_log_eq_powr_iff [of "\<bar>real_of_int n\<bar>" 2 e] pos by (simp add: e_def)
  have "real_of_int \<bar>n\<bar> < 2 ^ p" using assms(1) by (metis of_int_less_iff of_int_numeral of_int_power)
  then have "\<bar>real_of_int n\<bar> < 2 powr real p" by (simp add: powr_realpow)
  with b have "(2::real) powr of_int e < 2 powr real p" by linarith
  then have "real_of_int e < real p" by simp
  then have e: "e < int p" by linarith
  define k where "k = nat (int p - 1 - e)"
  have k: "e - int p + 1 = - int k" using e by (simp add: k_def)
  have q: "2 powr of_int (e - int p + 1) = 1 / (2::real) ^ k"
    unfolding k by (simp add: powr_minus powr_realpow inverse_eq_divide)
  have "real_of_int n / (1 / 2 ^ k) = of_int (n * 2 ^ k)" by simp
  then have "rne (real_of_int n / (1 / 2 ^ k)) = n * 2 ^ k" by (simp only: rne_of_int)
  then show ?thesis
    using False unfolding round_binary_def Let_def e_def [symmetric] q by simp
qed

lemma dround_mono: "0 \<le> x \<Longrightarrow> x \<le> y \<Longrightarrow> dround x \<le> dround y"
  unfolding dround_def by (rule round_binary_mono) simp_all

lemma fround_mono: "0 \<le> x \<Longrightarrow> x \<le> y \<Longrightarrow> fround x \<le> fround y"
  unfolding fround_def by (rule round_binary_mono) simp_all

lemma dround_nonneg: "0 \<le> x \<Longrightarrow> 0 \<le> dround x"
  unfolding dround_def by (rule round_binary_nonneg) simp_all

lemma fround_nonneg: "0 \<le> x \<Longrightarrow> 0 \<le> fround x"
  unfolding fround_def by (rule round_binary_nonneg) simp_all

lemma dround_int: "\<bar>n\<bar> < 2 ^ 53 \<Longrightarrow> dround (of_int n) = of_int n"
  unfolding dround_def by (rule round_binary_int) simp_all

lemma fround_int: "\<bar>n\<bar> < 2 ^ 24 \<Longrightarrow> fround (of_int n) = of_int n"
  unfolding fround_def by (rule round_binary_int) simp_all

lemma dround_numeral [simp]: "dround 0 = 0" "dround 1 = 1" "dround 5 = 5"
  using dround_int [of 0] dround_int [of 1] dround_int [of 5] by simp_all

lemma fround_numeral [simp]: "fround 0 = 0" "fround 5 = 5"
  using fround_int [of 0] fround_int [of 5] by simp_all

lemma distance_fp_nonneg: "0 \<le> distance_fp p x y"
  by (simp add: distance_fp_def Let_def dround_nonneg)

lemma point_intensity_fp_nonneg:
  assumes "0 \<le> d" "d < radius"
  shows "0 \<le> point_intensity_fp d"
proof -
  from assms have "0 \<le> d / radius" "d / radius \<le> 1" by (simp_all add: radius_def)
  then have "dround (d / radius) \<le> dround 1" by (rule dround_mono)
  then have "0 \<le> dround (1 - dround (d / radius))" by (intro dround_nonneg) simp
  moreover have "0 \<le> dround (4 / 10)" by (intro dround_nonneg) simp
  ultimately have "0 \<le> dround (1 - dround (d / radius)) * dround (4 / 10)"
    by (rule mult_nonneg_nonneg)
  then show ?thesis
    unfolding point_intensity_fp_def by (rule dround_nonneg)
qed

lemma clamp_commutes:
  assumes "0 \<le> s" "0 \<le> c"
  shows "fround (min (dround (min s maxPointsPerPixel + c)) maxPointsPerPixel) =
     min (fround (dround (s + c))) maxPointsPerPixel"
  unfolding maxPointsPerPixel_def
proof (cases "s \<le> 5")
  case True
  then have m: "min s 5 = s" by simp
  from assms have d: "0 \<le> dround (s + c)" by (intro dround_nonneg) simp
  show "fround (min (dround (min s 5 + c)) 5) = min (fround (dround (s + c))) 5"
  proof (cases "dround (s + c) \<le> 5")
    case True
    with d have "fround (dround (s + c)) \<le> fround 5" by (intro fround_mono)
    with True show ?thesis unfolding m by simp
  next
    case False
    then have "fround 5 \<le> fround (dround (s + c))" by (intro fround_mono) simp_all
    with False show ?thesis unfolding m by simp
  qed
next
  case False
  then have m: "min s 5 = 5" by simp
  from assms have "dround 5 \<le> dround (5 + c)" by (intro dround_mono) simp_all
  then have l: "fround (min (dround (5 + c)) 5) = 5" by (simp add: min_def)
  from False assms have "dround 5 \<le> dround (s + c)" by (intro dround_mono) simp_all
  then have "fround 5 \<le> fround (dround (s + c))" by (intro fround_mono) simp_all
  then show "fround (min (dround (min s 5 + c)) 5) = min (fround (dround (s + c))) 5"
    unfolding m l by simp
qed

lemma clamped_fold:
  "0 \<le> s \<Longrightarrow>
   fold (\<lambda>p v. if reaches_fp p w h x y
               then fround (min (dround (v + point_intensity_fp (distance_fp p (int x) (int y))))
                      maxPointsPerPixel)
               else v)
     ps (min s maxPointsPerPixel) =
   min (fold (\<lambda>p s. if reaches_fp p w h x y
                    then fround (dround (s + point_intensity_fp (distance_fp p (int x) (int y))))
                    else s)
          ps s) maxPointsPerPixel"
proof (induction ps arbitrary: s)
  case Nil
  show ?case by simp
next
  case (Cons p ps)
  show ?case
  proof (cases "reaches_fp p w h x y")
    case False
    with Cons show ?thesis by simp
  next
    case True
    let ?c = "point_intensity_fp (distance_fp p (int x) (int y))"
    from True have "distance_fp p (int x) (int y) < radius" by (simp add: reaches_fp_def)
    then have c: "0 \<le> ?c" by (intro point_intensity_fp_nonneg distance_fp_nonneg)
    with Cons.prems have "0 \<le> fround (dround (s + ?c))"
      by (intro fround_nonneg dround_nonneg) simp
    from Cons.IH [OF this] show ?thesis
      using True by (simp add: clamp_commutes [OF Cons.prems c])
  qed
qed

lemma accumulate_fp_nth:
  assumes "x < w" "y < h"
  shows "accumulate_fp ps w h ! (y * w + x) = min (running_sum_fp ps w h x y) maxPointsPerPixel"
proof -
  have z: "replicate (w * h) (0::real) ! (y * w + x) = 0"
    using assms by (simp add: pixel_index_less)
  have "accumulate_fp ps w h ! (y * w + x) =
     fold (\<lambda>p v. if reaches_fp p w h x y
               then fround (min (dround (v + point_intensity_fp (distance_fp p (int x) (int y))))
                      maxPointsPerPixel)
               else v)
       ps (min 0 maxPointsPerPixel)"
    unfolding accumulate_fp_def
    by (subst accumulate_fp_fold [OF assms]) (simp_all add: z maxPointsPerPixel_def)
  also have "\<dots> = min (running_sum_fp ps w h x y) maxPointsPerPixel"
    unfolding running_sum_fp_def by (rule clamped_fold) simp
  finally show ?thesis .
qed

subsection \<open>Values of the roundings on the inputs below\<close>

lemma dround_eval:
  "0 < x \<Longrightarrow> 2 ^ 52 \<le> x * 2 ^ s \<Longrightarrow> x * 2 ^ s < 2 ^ 53 \<Longrightarrow>
   dround x = of_int (rne (x * 2 ^ s)) / 2 ^ s"
  unfolding dround_def using round_binary_eval [of x 53 s] by simp

lemma fround_eval:
  "0 < x \<Longrightarrow> 2 ^ 23 \<le> x * 2 ^ s \<Longrightarrow> x * 2 ^ s < 2 ^ 24 \<Longrightarrow>
   fround x = of_int (rne (x * 2 ^ s)) / 2 ^ s"
  unfolding fround_def using round_binary_eval [of x 24 s] by simp

lemma literal_04: "dround (4 / 10) = 3602879701896397 / 9007199254740992"
  by (subst dround_eval [where s = 54]) (simp_all add: rne_def)

lemma dround_04: "dround (3602879701896397 / 9007199254740992) = 3602879701896397 / 9007199254740992"
  by (subst dround_eval [where s = 54]) (simp_all add: rne_def)

lemma point_intensity_fp_0: "point_intensity_fp 0 = 3602879701896397 / 9007199254740992"
  by (simp only: point_intensity_fp_def div_0 dround_numeral diff_zero literal_04 mult_1
      dround_04)

lemma stack_step_1: "fround (dround (0 + 3602879701896397 / 9007199254740992)) = 13421773 / 33554432"
proof -
  have d: "dround (0 + 3602879701896397 / 9007199254740992) = 3602879701896397 / 9007199254740992"
    by (subst dround_eval [where s = 54]) (simp_all add: rne_def)
  have f: "fround (3602879701896397 / 9007199254740992) = 13421773 / 33554432"
    by (subst fround_eval [where s = 25]) (simp_all add: rne_def)
  show ?thesis by (simp only: d f)
qed

lemma stack_step_2: "fround (dround (13421773 / 33554432 + 3602879701896397 / 9007199254740992)) = 13421773 / 16777216"
proof -
  have d: "dround (13421773 / 33554432 + 3602879701896397 / 9007199254740992) = 7205759457479885 / 9007199254740992"
    by (subst dround_eval [where s = 53]) (simp_all add: rne_def)
  have f: "fround (7205759457479885 / 9007199254740992) = 13421773 / 16777216"
    by (subst fround_eval [where s = 24]) (simp_all add: rne_def)
  show ?thesis by (simp only: d f)
qed

lemma stack_step_3: "fround (dround (13421773 / 16777216 + 3602879701896397 / 9007199254740992)) = 5033165 / 4194304"
proof -
  have d: "dround (13421773 / 16777216 + 3602879701896397 / 9007199254740992) = 2702159803265843 / 2251799813685248"
    by (subst dround_eval [where s = 52]) (simp_all add: rne_def)
  have f: "fround (2702159803265843 / 2251799813685248) = 5033165 / 4194304"
    by (subst fround_eval [where s = 23]) (simp_all add: rne_def)
  show ?thesis by (simp only: d f)
qed

lemma stack_step_4: "fround (dround (5033165 / 4194304 + 3602879701896397 / 9007199254740992)) = 13421773 / 8388608"
proof -
  have d: "dround (5033165 / 4194304 + 3602879701896397 / 9007199254740992) = 3602879809270579 / 2251799813685248"
    by (subst dround_eval [where s = 52]) (simp_all add: rne_def)
  have f: "fround (3602879809270579 / 2251799813685248) = 13421773 / 8388608"
    by (subst fround_eval [where s = 23]) (simp_all add: rne_def)
  show ?thesis by (simp only: d f)
qed

lemma stack_step_5: "fround (dround (13421773 / 8388608 + 3602879701896397 / 9007199254740992)) = 2"
proof -
  have d: "dround (13421773 / 8388608 + 3602879701896397 / 9007199254740992) = 4503599681057587 / 2251799813685248"
    by (subst dround_eval [where s = 51]) (simp_all add: rne_def)
  have f: "fround (4503599681057587 / 2251799813685248) = 2"
    by (subst fround_eval [where s = 22]) (simp_all add: rne_def)
  show ?thesis by (simp only: d f)
qed

lemma stack_step_6: "fround (dround (2 + 3602879701896397 / 9007199254740992)) = 5033165 / 2097152"
proof -
  have d: "dround (2 + 3602879701896397 / 9007199254740992) = 5404319552844595 / 2251799813685248"
    by (subst dround_eval [where s = 51]) (simp_all add: rne_def)
  have f: "fround (5404319552844595 / 2251799813685248) = 5033165 / 2097152"
    by (subst fround_eval [where s = 22]) (simp_all add: rne_def)
  show ?thesis by (simp only: d f)
qed

lemma stack_step_7: "fround (dround (5033165 / 2097152 + 3602879701896397 / 9007199254740992)) = 2936013 / 1048576"
proof -
  have d: "dround (5033165 / 2097152 + 3602879701896397 / 9007199254740992) = 6305039693067059 / 2251799813685248"
    by (subst dround_eval [where s = 51]) (simp_all add: rne_def)
  have f: "fround (6305039693067059 / 2251799813685248) = 2936013 / 1048576"
    by (subst fround_eval [where s = 22]) (simp_all add: rne_def)
  show ?thesis by (simp only: d f)
qed

lemma stack_step_8: "fround (dround (2936013 / 1048576 + 3602879701896397 / 9007199254740992)) = 6710887 / 2097152"
proof -
  have d: "dround (2936013 / 1048576 + 3602879701896397 / 9007199254740992) = 7205759833289523 / 2251799813685248"
    by (subst dround_eval [where s = 51]) (simp_all add: rne_def)
  have f: "fround (7205759833289523 / 2251799813685248) = 6710887 / 2097152"
    by (subst fround_eval [where s = 22]) (simp_all add: rne_def)
  show ?thesis by (simp only: d f)
qed

lemma stack_step_9: "fround (dround (6710887 / 2097152 + 3602879701896397 / 9007199254740992)) = 1887437 / 524288"
proof -
  have d: "dround (6710887 / 2097152 + 3602879701896397 / 9007199254740992) = 8106479973511987 / 2251799813685248"
    by (subst dround_eval [where s = 51]) (simp_all add: rne_def)
  have f: "fround (8106479973511987 / 2251799813685248) = 1887437 / 524288"
    by (subst fround_eval [where s = 22]) (simp_all add: rne_def)
  show ?thesis by (simp only: d f)
qed

lemma stack_step_10: "fround (dround (1887437 / 524288 + 3602879701896397 / 9007199254740992)) = 8388609 / 2097152"
proof -
  have d: "dround (1887437 / 524288 + 3602879701896397 / 9007199254740992) = 2251800028433613 / 562949953421312"
    by (subst dround_eval [where s = 50]) (simp_all add: rne_def)
  have f: "fround (2251800028433613 / 562949953421312) = 8388609 / 2097152"
    by (subst fround_eval [where s = 21]) (simp_all add: rne_def)
  show ?thesis by (simp only: d f)
qed

lemma stack_step_11: "fround (dround (8388609 / 2097152 + 3602879701896397 / 9007199254740992)) = 4613735 / 1048576"
proof -
  have d: "dround (8388609 / 2097152 + 3602879701896397 / 9007199254740992) = 2476980063489229 / 562949953421312"
    by (subst dround_eval [where s = 50]) (simp_all add: rne_def)
  have f: "fround (2476980063489229 / 562949953421312) = 4613735 / 1048576"
    by (subst fround_eval [where s = 21]) (simp_all add: rne_def)
  show ?thesis by (simp only: d f)
qed

lemma stack_step_12: "fround (dround (4613735 / 1048576 + 3602879701896397 / 9007199254740992)) = 10066331 / 2097152"
proof -
  have d: "dround (4613735 / 1048576 + 3602879701896397 / 9007199254740992) = 2702160098544845 / 562949953421312"
    by (subst dround_eval [where s = 50]) (simp_all add: rne_def)
  have f: "fround (2702160098544845 / 562949953421312) = 10066331 / 2097152"
    by (subst fround_eval [where s = 21]) (simp_all add: rne_def)
  show ?thesis by (simp only: d f)
qed

lemma point_intensity_fp_24: "point_intensity_fp 24 = 2882303761517117 / 36028797018963968"
proof -
  have a: "dround (24 / 30) = 3602879701896397 / 4503599627370496"
    by (subst dround_eval [where s = 53]) (simp_all add: rne_def)
  have b: "dround (1 - 3602879701896397 / 4503599627370496) = 900719925474099 / 4503599627370496"
    by (subst dround_eval [where s = 55]) (simp_all add: rne_def)
  have c: "dround (900719925474099 / 4503599627370496 * (3602879701896397 / 9007199254740992)) = 2882303761517117 / 36028797018963968"
    by (subst dround_eval [where s = 56]) (simp_all add: rne_def)
  show ?thesis by (simp only: point_intensity_fp_def radius_def a b literal_04 c)
qed

lemma near_then_far: "fround (dround (13421773 / 33554432 + 2882303761517117 / 36028797018963968)) = 1006633 / 2097152"
proof -
  have d: "dround (13421773 / 33554432 + 2882303761517117 / 36028797018963968) = 4323455695962767 / 9007199254740992"
    by (subst dround_eval [where s = 54]) (simp_all add: rne_def)
  have f: "fround (4323455695962767 / 9007199254740992) = 1006633 / 2097152"
    by (subst fround_eval [where s = 25]) (simp_all add: rne_def)
  show ?thesis by (simp only: d f)
qed

lemma far_first: "fround (dround (0 + 2882303761517117 / 36028797018963968)) = 5368709 / 67108864"
proof -
  have d: "dround (0 + 2882303761517117 / 36028797018963968) = 2882303761517117 / 36028797018963968"
    by (subst dround_eval [where s = 56]) (simp_all add: rne_def)
  have f: "fround (2882303761517117 / 36028797018963968) = 5368709 / 67108864"
    by (subst fround_eval [where s = 27]) (simp_all add: rne_def)
  show ?thesis by (simp only: d f)
qed

lemma far_then_near: "fround (dround (5368709 / 67108864 + 3602879701896397 / 9007199254740992)) = 16106127 / 33554432"
proof -
  have d: "dround (5368709 / 67108864 + 3602879701896397 / 9007199254740992) = 4323455626169549 / 9007199254740992"
    by (subst dround_eval [where s = 54]) (simp_all add: rne_def)
  have f: "fround (4323455626169549 / 9007199254740992) = 16106127 / 33554432"
    by (subst fround_eval [where s = 25]) (simp_all add: rne_def)
  show ?thesis by (simp only: d f)
qed

lemma fround_48: "fround (12 * (4 / 10)) = 5033165 / 1048576"
  by (subst fround_eval [where s = 21]) (simp_all add: rne_def)

lemma running_sum_fp_Suc:
  assumes "reaches_fp p w h x y" "point_intensity_fp (distance_fp p (int x) (int y)) = c"
  shows "running_sum_fp (replicate (Suc n) p) w h x y =
     fround (dround (running_sum_fp (replicate n p) w h x y + c))"
proof -
  have "replicate (Suc n) p = replicate n p @ [p]" by (simp add: replicate_append_same)
  then show ?thesis using assms unfolding running_sum_fp_def by (simp only: fold_append) simp
qed

lemma running_sum_fp_stack:
  assumes "reaches_fp p w h x y"
    and "point_intensity_fp (distance_fp p (int x) (int y)) = 3602879701896397 / 9007199254740992"
  shows "n \<le> 12 \<Longrightarrow> running_sum_fp (replicate n p) w h x y =
     [0,
      13421773 / 33554432,
      13421773 / 16777216,
      5033165 / 4194304,
      13421773 / 8388608,
      2,
      5033165 / 2097152,
      2936013 / 1048576,
      6710887 / 2097152,
      1887437 / 524288,
      8388609 / 2097152,
      4613735 / 1048576,
      10066331 / 2097152] ! n"
proof -
  note step = running_sum_fp_Suc [OF assms]
  have r0: "running_sum_fp (replicate 0 p) w h x y = 0"
    by (simp add: running_sum_fp_def)
  have r1: "running_sum_fp (replicate 1 p) w h x y = 13421773 / 33554432"
  proof -
    have "running_sum_fp (replicate (Suc 0) p) w h x y =
        fround (dround (running_sum_fp (replicate 0 p) w h x y + 3602879701896397 / 9007199254740992))"
      by (rule step)
    moreover have "Suc 0 = (1::nat)" by simp
    ultimately have "running_sum_fp (replicate 1 p) w h x y =
        fround (dround (running_sum_fp (replicate 0 p) w h x y + 3602879701896397 / 9007199254740992))"
      by (simp only:)
    then show ?thesis by (simp only: r0 stack_step_1)
  qed
  have r2: "running_sum_fp (replicate 2 p) w h x y = 13421773 / 16777216"
  proof -
    have "running_sum_fp (replicate (Suc 1) p) w h x y =
        fround (dround (running_sum_fp (replicate 1 p) w h x y + 3602879701896397 / 9007199254740992))"
      by (rule step)
    moreover have "Suc 1 = (2::nat)" by simp
    ultimately have "running_sum_fp (replicate 2 p) w h x y =
        fround (dround (running_sum_fp (replicate 1 p) w h x y + 3602879701896397 / 9007199254740992))"
      by (simp only:)
    then show ?thesis by (simp only: r1 stack_step_2)
  qed
  have r3: "running_sum_fp (replicate 3 p) w h x y = 5033165 / 4194304"
  proof -
    have "running_sum_fp (replicate (Suc 2) p) w h x y =
        fround (dround (running_sum_fp (replicate 2 p) w h x y + 3602879701896397 / 9007199254740992))"
      by (rule step)
    moreover have "Suc 2 = (3::nat)" by simp
    ultimately have "running_sum_fp (replicate 3 p) w h x y =
        fround (dround (running_sum_fp (replicate 2 p) w h x y + 3602879701896397 / 9007199254740992))"
      by (simp only:)
    then show ?thesis by (simp only: r2 stack_step_3)
  qed
  have r4: "running_sum_fp (replicate 4 p) w h x y = 13421773 / 8388608"
  proof -
    have "running_sum_fp (replicate (Suc 3) p) w h x y =
        fround (dround (running_sum_fp (replicate 3 p) w h x y + 3602879701896397 / 9007199254740992))"
      by (rule step)
    moreover have "Suc 3 = (4::nat)" by simp
    ultimately have "running_sum_fp (replicate 4 p) w h x y =
        fround (dround (running_sum_fp (replicate 3 p) w h x y + 3602879701896397 / 9007199254740992))"
      by (simp only:)
    then show ?thesis by (simp only: r3 stack_step_4)
  qed
  have r5: "running_sum_fp (replicate 5 p) w h x y = 2"
  proof -
    have "running_sum_fp (replicate (Suc 4) p) w h x y =
        fround (dround (running_sum_fp (replicate 4 p) w h x y + 3602879701896397 / 9007199254740992))"
      by (rule step)
    moreover have "Suc 4 = (5::nat)" by simp
    ultimately have "running_sum_fp (replicate 5 p) w h x y =
        fround (dround (running_sum_fp (replicate 4 p) w h x y + 3602879701896397 / 9007199254740992))"
      by (simp only:)
    then show ?thesis by (simp only: r4 stack_step_5)
  qed
  have r6: "running_sum_fp (replicate 6 p) w h x y = 5033165 / 2097152"
  proof -
    have "running_sum_fp (replicate (Suc 5) p) w h x y =
        fround (dround (running_sum_fp (replicate 5 p) w h x y + 3602879701896397 / 9007199254740992))"
      by (rule step)
    moreover have "Suc 5 = (6::nat)" by simp
    ultimately have "running_sum_fp (replicate 6 p) w h x y =
        fround (dround (running_sum_fp (replicate 5 p) w h x y + 3602879701896397 / 9007199254740992))"
      by (simp only:)
    then show ?thesis by (simp only: r5 stack_step_6)
  qed
  have r7: "running_sum_fp (replicate 7 p) w h x y = 2936013 / 1048576"
  proof -
    have "running_sum_fp (replicate (Suc 6) p) w h x y =
        fround (dround (running_sum_fp (replicate 6 p) w h x y + 3602879701896397 / 9007199254740992))"
      by (rule step)
    moreover have "Suc 6 = (7::nat)" by simp
    ultimately have "running_sum_fp (replicate 7 p) w h x y =
        fround (dround (running_sum_fp (replicate 6 p) w h x y + 3602879701896397 / 9007199254740992))"
      by (simp only:)
    then show ?thesis by (simp only: r6 stack_step_7)
  qed
  have r8: "running_sum_fp (replicate 8 p) w h x y = 6710887 / 2097152"
  proof -
    have "running_sum_fp (replicate (Suc 7) p) w h x y =
        fround (dround (running_sum_fp (replicate 7 p) w h x y + 3602879701896397 / 9007199254740992))"
      by (rule step)
    moreover have "Suc 7 = (8::nat)" by simp
    ultimately have "running_sum_fp (replicate 8 p) w h x y =
        fround (dround (running_sum_fp (replicate 7 p) w h x y + 3602879701896397 / 9007199254740992))"
      by (simp only:)
    then show ?thesis by (simp only: r7 stack_step_8)
  qed
  have r9: "running_sum_fp (replicate 9 p) w h x y = 1887437 / 524288"
  proof -
    have "running_sum_fp (replicate (Suc 8) p) w h x y =
        fround (dround (running_sum_fp (replicate 8 p) w h x y + 3602879701896397 / 9007199254740992))"
      by (rule step)
    moreover have "Suc 8 = (9::nat)" by simp
    ultimately have "running_sum_fp (replicate 9 p) w h x y =
        fround (dround (running_sum_fp (replicate 8 p) w h x y + 3602879701896397 / 9007199254740992))"
      by (simp only:)
    then show ?thesis by (simp only: r8 stack_step_9)
  qed
  have r10: "running_sum_fp (replicate 10 p) w h x y = 8388609 / 2097152"
  proof -
    have "running_sum_fp (replicate (Suc 9) p) w h x y =
        fround (dround (running_sum_fp (replicate 9 p) w h x y + 3602879701896397 / 9007199254740992))"
      by (rule step)
    moreover have "Suc 9 = (10::nat)" by simp
    ultimately have "running_sum_fp (replicate 10 p) w h x y =
        fround (dround (running_sum_fp (replicate 9 p) w h x y + 3602879701896397 / 9007199254740992))"
      by (simp only:)
    then show ?thesis by (simp only: r9 stack_step_10)
  qed
  have r11: "running_sum_fp (replicate 11 p) w h x y = 4613735 / 1048576"
  proof -
    have "running_sum_fp (replicate (Suc 10) p) w h x y =
        fround (dround (running_sum_fp (replicate 10 p) w h x y + 3602879701896397 / 9007199254740992))"
      by (rule step)
    moreover have "Suc 10 = (11::nat)" by simp
    ultimately have "running_sum_fp (replicate 11 p) w h x y =
        fround (dround (running_sum_fp (replicate 10 p) w h x y + 3602879701896397 / 9007199254740992))"
      by (simp only:)
    then show ?thesis by (simp only: r10 stack_step_11)
  qed
  have r12: "running_sum_fp (replicate 12 p) w h x y = 10066331 / 2097152"
  proof -
    have "running_sum_fp (replicate (Suc 11) p) w h x y =
        fround (dround (running_sum_fp (replicate 11 p) w h x y + 3602879701896397 / 9007199254740992))"
      by (rule step)
    moreover have "Suc 11 = (12::nat)" by simp
    ultimately have "running_sum_fp (replicate 12 p) w h x y =
        fround (dround (running_sum_fp (replicate 11 p) w h x y + 3602879701896397 / 9007199254740992))"
      by (simp only:)
    then show ?thesis by (simp only: r11 stack_step_12)
  qed
  assume "n \<le> 12"
  then consider "n = 0" | "n = 1" | "n = 2" | "n = 3" | "n = 4" | "n = 5" | "n = 6" | "n = 7" | "n = 8" | "n = 9" | "n = 10" | "n = 11" | "n = 12"
    by atomize_elim arith
  then show ?thesis
  proof cases
    case 1
    then show ?thesis using r0 by simp
  next
    case 2
    then show ?thesis using r1 by simp
  next
    case 3
    then show ?thesis using r2 by simp
  next
    case 4
    then show ?thesis using r3 by simp
  next
    case 5
    then show ?thesis using r4 by simp
  next
    case 6
    then show ?thesis using r5 by simp
  next
    case 7
    then show ?thesis using r6 by simp
  next
    case 8
    then show ?thesis using r7 by simp
  next
    case 9
    then show ?thesis using r8 by simp
  next
    case 10
    then show ?thesis using r9 by simp
  next
    case 11
    then show ?thesis using r10 by simp
  next
    case 12
    then show ?thesis using r11 by simp
  next
    case 13
    then show ?thesis using r12 by simp
  qed
qed

lemma stacked_within_rounding:
  assumes "n \<le> 12"
  shows "[0, 13421773 / 33554432, 13421773 / 16777216, 5033165 / 4194304, 13421773 / 8388608, 2,
      5033165 / 2097152, 2936013 / 1048576, 6710887 / 2097152, 1887437 / 524288,
      8388609 / 2097152, 4613735 / 1048576, 10066331 / 2097152] ! n \<le> (5::real) \<and>
     \<bar>[0, 13421773 / 33554432, 13421773 / 16777216, 5033165 / 4194304, 13421773 / 8388608, 2,
      5033165 / 2097152, 2936013 / 1048576, 6710887 / 2097152, 1887437 / 524288,
      8388609 / 2097152, 4613735 / 1048576, 10066331 / 2097152] ! n - real n * (4 / 10)\<bar>
       \<le> 1 / 10 ^ 6"
proof -
  from assms consider "n = 0" | "n = 1" | "n = 2" | "n = 3" | "n = 4" | "n = 5" | "n = 6"
    | "n = 7" | "n = 8" | "n = 9" | "n = 10" | "n = 11" | "n = 12"
    by atomize_elim arith
  then show ?thesis by cases simp_all
qed

lemma centre_reached:
  assumes "x < w" "y < h" "w \<le> 2 ^ 32" "h \<le> 2 ^ 32"
  shows "reaches_fp \<lparr>point_x = real x, point_y = real y\<rparr> w h x y"
    and "distance_fp \<lparr>point_x = real x, point_y = real y\<rparr> (int x) (int y) = 0"
proof -
  show d: "distance_fp \<lparr>point_x = real x, point_y = real y\<rparr> (int x) (int y) = 0"
    by (simp add: distance_fp_def)
  from assms have b: "\<bar>int x - 30\<bar> < 2 ^ 53" "\<bar>int x + 30\<bar> < 2 ^ 53"
    "\<bar>int y - 30\<bar> < 2 ^ 53" "\<bar>int y + 30\<bar> < 2 ^ 53"
    by simp_all
  have "dround (real x - 30) = of_int (int x - 30)" "dround (real x + 30) = of_int (int x + 30)"
    "dround (real y - 30) = of_int (int y - 30)" "dround (real y + 30) = of_int (int y + 30)"
    using b [THEN dround_int] by simp_all
  then have "x0_fp \<lparr>point_x = real x, point_y = real y\<rparr> = max 0 (int x - 30)"
    "x1_fp \<lparr>point_x = real x, point_y = real y\<rparr> w = min (int w) (int x + 30)"
    "y0_fp \<lparr>point_x = real x, point_y = real y\<rparr> = max 0 (int y - 30)"
    "y1_fp \<lparr>point_x = real x, point_y = real y\<rparr> h = min (int h) (int y + 30)"
    by (simp_all only: x0_fp_def x1_fp_def y0_fp_def y1_fp_def radius_def point.simps
        floor_of_int)
  then show "reaches_fp \<lparr>point_x = real x, point_y = real y\<rparr> w h x y"
    using assms d by (simp add: reaches_fp_def radius_def)
qed

subsection \<open>The clamp and the order of the points\<close>

text \<open>
  Claim C8, in the arithmetic of the code. At every pixel of the raster the
  accumulated intensity is the running sum of the contributions, taken in the order
  of the list with a double addition and a float32 store for each point, clamped
  once at 5.0: clamping after every update gives the same value as clamping that
  running sum at the end. For \<open>n \<le> 12\<close> points stacked on a pixel (of a raster
  whose sides are at most \<open>2^32\<close>) the cap is not reached, and the value is
  \<open>n * 0.4\<close> up to the rounding of the stores, within \<open>10^-6\<close>.
\<close>

theorem running_sum_then_clamp:
  "x < width \<and> y < height \<longrightarrow>
     accumulate_fp points width height ! (y * width + x) =
       min (running_sum_fp points width height x y) maxPointsPerPixel \<and>
     (n \<le> 12 \<and> width \<le> 2 ^ 32 \<and> height \<le> 2 ^ 32 \<longrightarrow>
        accumulate_fp (replicate n \<lparr>point_x = real x, point_y = real y\<rparr>) width height
          ! (y * width + x) =
          running_sum_fp (replicate n \<lparr>point_x = real x, point_y = real y\<rparr>) width height x y \<and>
        \<bar>accumulate_fp (replicate n \<lparr>point_x = real x, point_y = real y\<rparr>) width height
           ! (y * width + x) - real n * (4 / 10)\<bar> \<le> 1 / 10 ^ 6)"
proof (intro impI conjI)
  assume "x < width \<and> y < height"
  then have xy: "x < width" "y < height" by simp_all
  show "accumulate_fp points width height ! (y * width + x) =
       min (running_sum_fp points width height x y) maxPointsPerPixel"
    by (rule accumulate_fp_nth [OF xy])
  assume "n \<le> 12 \<and> width \<le> 2 ^ 32 \<and> height \<le> 2 ^ 32"
  then have n: "n \<le> 12" and wh: "width \<le> 2 ^ 32" "height \<le> 2 ^ 32" by simp_all
  let ?p = "\<lparr>point_x = real x, point_y = real y\<rparr>"
  let ?t = "[0, 13421773 / 33554432, 13421773 / 16777216, 5033165 / 4194304,
      13421773 / 8388608, 2, 5033165 / 2097152, 2936013 / 1048576, 6710887 / 2097152,
      1887437 / 524288, 8388609 / 2097152, 4613735 / 1048576, 10066331 / 2097152 :: real]"
  have c: "point_intensity_fp (distance_fp ?p (int x) (int y)) =
      3602879701896397 / 9007199254740992"
    by (simp only: centre_reached(2) [OF xy wh] point_intensity_fp_0)
  have s: "running_sum_fp (replicate n ?p) width height x y = ?t ! n"
    using centre_reached(1) [OF xy wh] c n by (rule running_sum_fp_stack)
  from stacked_within_rounding [OF n]
  have t: "?t ! n \<le> 5" "\<bar>?t ! n - real n * (4 / 10)\<bar> \<le> 1 / 10 ^ 6" by simp_all
  have v: "accumulate_fp (replicate n ?p) width height ! (y * width + x) = ?t ! n"
    unfolding accumulate_fp_nth [OF xy] s maxPointsPerPixel_def using t(1) by simp
  show "accumulate_fp (replicate n ?p) width height ! (y * width + x) =
      running_sum_fp (replicate n ?p) width height x y"
    by (simp only: v s)
  show "\<bar>accumulate_fp (replicate n ?p) width height ! (y * width + x) - real n * (4 / 10)\<bar>
      \<le> 1 / 10 ^ 6"
    unfolding v by (rule t(2))
qed

lemma distance_fp_far: "distance_fp \<lparr>point_x = 24, point_y = 0\<rparr> 0 0 = 24"
proof -
  have "sqrt (576::real) = 24" using real_sqrt_abs2 [of "24::real"] by simp
  moreover have "dround 24 = 24" "dround 576 = 576"
    using dround_int [of 24] dround_int [of 576] by simp_all
  ultimately show ?thesis by (simp add: distance_fp_def)
qed

lemma reaches_fp_near: "reaches_fp \<lparr>point_x = 0, point_y = 0\<rparr> 1 1 0 0"
  using centre_reached(1) [of 0 1 0 1] by simp

lemma distance_fp_near: "distance_fp \<lparr>point_x = 0, point_y = 0\<rparr> 0 0 = 0"
  by (simp add: distance_fp_def)

lemma reaches_fp_far: "reaches_fp \<lparr>point_x = 24, point_y = 0\<rparr> 1 1 0 0"
proof -
  have "dround (- 6) = - 6" "dround 54 = 54" "dround (- 30) = - 30" "dround 30 = 30"
    using dround_int [of "- 6"] dround_int [of 54] dround_int [of "- 30"] dround_int [of 30]
    by simp_all
  then show ?thesis
    by (simp add: reaches_fp_def x0_fp_def x1_fp_def y0_fp_def y1_fp_def radius_def
        distance_fp_far)
qed

text \<open>
  Claim C8 as stated fails in the arithmetic of the code, on a raster of one pixel.
  One point on the pixel gives the float32 nearest to \<open>0.4\<close>, which is not \<open>4/10\<close>;
  twelve give \<open>10066331 / 2^21\<close>, about 4.8000007, which is neither \<open>12 * 0.4\<close> nor
  its float32. The points \<open>(0, 0)\<close> and \<open>(24, 0)\<close> give \<open>1006633 / 2^21\<close> in this
  order and \<open>16106127 / 2^25\<close> in the other: the map depends on the order.
\<close>

theorem float32_sum_not_linear_nor_commutative:
  "accumulate_fp [\<lparr>point_x = 0, point_y = 0\<rparr>] 1 1 ! 0 = 13421773 / 33554432 \<and>
   accumulate_fp (replicate 12 \<lparr>point_x = 0, point_y = 0\<rparr>) 1 1 ! 0 = 10066331 / 2097152 \<and>
   accumulate_fp (replicate 12 \<lparr>point_x = 0, point_y = 0\<rparr>) 1 1 ! 0 \<noteq> 12 * (4 / 10) \<and>
   accumulate_fp (replicate 12 \<lparr>point_x = 0, point_y = 0\<rparr>) 1 1 ! 0 \<noteq> fround (12 * (4 / 10)) \<and>
   mset [\<lparr>point_x = 0, point_y = 0\<rparr>, \<lparr>point_x = 24, point_y = 0\<rparr>] =
     mset [\<lparr>point_x = 24, point_y = 0\<rparr>, \<lparr>point_x = 0, point_y = 0\<rparr>] \<and>
   accumulate_fp [\<lparr>point_x = 0, point_y = 0\<rparr>, \<lparr>point_x = 24, point_y = 0\<rparr>] 1 1 ! 0 =
     1006633 / 2097152 \<and>
   accumulate_fp [\<lparr>point_x = 24, point_y = 0\<rparr>, \<lparr>point_x = 0, point_y = 0\<rparr>] 1 1 ! 0 =
     16106127 / 33554432 \<and>
   accumulate_fp [\<lparr>point_x = 0, point_y = 0\<rparr>, \<lparr>point_x = 24, point_y = 0\<rparr>] 1 1 \<noteq>
     accumulate_fp [\<lparr>point_x = 24, point_y = 0\<rparr>, \<lparr>point_x = 0, point_y = 0\<rparr>] 1 1"
proof -
  let ?a = "\<lparr>point_x = 0, point_y = 0\<rparr>"
  let ?b = "\<lparr>point_x = 24, point_y = 0\<rparr>"
  have nth: "accumulate_fp ps 1 1 ! 0 = min (running_sum_fp ps 1 1 0 0) maxPointsPerPixel" for ps
    using accumulate_fp_nth [of 0 1 0 1 ps] by simp
  note ia = point_intensity_fp_0
  note ib = point_intensity_fp_24
  have one: "running_sum_fp [?a] 1 1 0 0 = 13421773 / 33554432"
    by (simp only: running_sum_fp_def fold_simps o_apply id_apply reaches_fp_near if_True
        of_nat_0 distance_fp_near ia stack_step_1)
  have "point_intensity_fp (distance_fp ?a (int 0) (int 0)) =
      3602879701896397 / 9007199254740992"
    by (simp only: of_nat_0 distance_fp_near ia)
  with reaches_fp_near have "running_sum_fp (replicate 12 ?a) 1 1 0 0 =
      [0, 13421773 / 33554432, 13421773 / 16777216, 5033165 / 4194304, 13421773 / 8388608, 2,
       5033165 / 2097152, 2936013 / 1048576, 6710887 / 2097152, 1887437 / 524288,
       8388609 / 2097152, 4613735 / 1048576, 10066331 / 2097152] ! 12"
    by (rule running_sum_fp_stack) simp
  then have twelve: "running_sum_fp (replicate 12 ?a) 1 1 0 0 = 10066331 / 2097152"
    by simp
  have ab: "running_sum_fp [?a, ?b] 1 1 0 0 = 1006633 / 2097152"
    by (simp only: running_sum_fp_def fold_simps o_apply id_apply reaches_fp_near
        reaches_fp_far if_True of_nat_0 distance_fp_near distance_fp_far ia ib stack_step_1
        near_then_far)
  have ba: "running_sum_fp [?b, ?a] 1 1 0 0 = 16106127 / 33554432"
    by (simp only: running_sum_fp_def fold_simps o_apply id_apply reaches_fp_near
        reaches_fp_far if_True of_nat_0 distance_fp_near distance_fp_far ia ib far_first
        far_then_near)
  have v1: "accumulate_fp [?a] 1 1 ! 0 = 13421773 / 33554432"
    unfolding nth one by (simp add: maxPointsPerPixel_def)
  have v12: "accumulate_fp (replicate 12 ?a) 1 1 ! 0 = 10066331 / 2097152"
    unfolding nth twelve by (simp add: maxPointsPerPixel_def)
  have vab: "accumulate_fp [?a, ?b] 1 1 ! 0 = 1006633 / 2097152"
    unfolding nth ab by (simp add: maxPointsPerPixel_def)
  have vba: "accumulate_fp [?b, ?a] 1 1 ! 0 = 16106127 / 33554432"
    unfolding nth ba by (simp add: maxPointsPerPixel_def)
  have ne: "accumulate_fp [?a, ?b] 1 1 \<noteq> accumulate_fp [?b, ?a] 1 1"
  proof
    assume "accumulate_fp [?a, ?b] 1 1 = accumulate_fp [?b, ?a] 1 1"
    then have "accumulate_fp [?a, ?b] 1 1 ! 0 = accumulate_fp [?b, ?a] 1 1 ! 0" by simp
    then show False unfolding vab vba by simp
  qed
  show ?thesis unfolding v1 v12 vab vba fround_48 using ne by simp
qed

text \<open>
  The two points above, and twelve points stacked, on the raster of one pixel.
\<close>

theorem running_sum_then_clamp_witness:
  "(0::nat) < 1 \<and> (12::nat) \<le> 12 \<and> (1::nat) \<le> 2 ^ 32 \<and>
   accumulate_fp [\<lparr>point_x = 0, point_y = 0\<rparr>, \<lparr>point_x = 24, point_y = 0\<rparr>] 1 1 ! 0 =
     min (running_sum_fp [\<lparr>point_x = 0, point_y = 0\<rparr>, \<lparr>point_x = 24, point_y = 0\<rparr>] 1 1 0 0)
       maxPointsPerPixel \<and>
   accumulate_fp (replicate 12 \<lparr>point_x = 0, point_y = 0\<rparr>) 1 1 ! 0 =
     running_sum_fp (replicate 12 \<lparr>point_x = 0, point_y = 0\<rparr>) 1 1 0 0 \<and>
   \<bar>accumulate_fp (replicate 12 \<lparr>point_x = 0, point_y = 0\<rparr>) 1 1 ! 0 - 12 * (4 / 10)\<bar>
     \<le> 1 / 10 ^ 6"
  using running_sum_then_clamp
      [of 0 1 0 1 "[\<lparr>point_x = 0, point_y = 0\<rparr>, \<lparr>point_x = 24, point_y = 0\<rparr>]" 12]
  by auto

end
